theory Spec2Isabelle
  imports Complex_Main "HOL-Library.Multiset"
begin

section \<open>Shared data model\<close>

text \<open>
  Both scripts declare the same two named tuples.  Python integers are unbounded, so the
  integer fields are \<open>int\<close>; \<open>fps\<close> is parsed as a float and is only handed on to the
  HTML renderer, never read by either search.
\<close>

record animation =
  frame_width :: int
  frame_height :: int
  frame_count :: int
  fps :: real

record layout =
  columns :: int
  rows :: int

datatype py_error = ZeroDivisionError | OverflowError | ValueError

section \<open>pack\_imagesv2.py: the exhaustive search\<close>

definition MAX_SIDE_LENGTH :: int where
  "MAX_SIDE_LENGTH = 11000"

text \<open>
  \<open>int(MAX_SIDE_LENGTH / w)\<close>: true division followed by truncation towards zero; a zero
  divisor raises.  For a non-zero integer \<open>w\<close> the correctly rounded quotient of
  \<open>11000 / w\<close> never crosses an integer, so the truncated float equals the truncated exact
  quotient, which is what is written here.
\<close>

definition max_cells :: "int \<Rightarrow> py_error + int" where
  "max_cells w =
     (if w = 0 then Inl ZeroDivisionError
      else if 0 < w then Inr (MAX_SIDE_LENGTH div w)
      else Inr (- (MAX_SIDE_LENGTH div (- w))))"

definition grid :: "int \<Rightarrow> int \<Rightarrow> layout list" where
  "grid max_columns max_rows =
     concat (map (\<lambda>c. map (\<lambda>r. \<lparr>columns = c, rows = r\<rparr>) [1..max_rows]) [1..max_columns])"

definition generate_layouts :: "animation \<Rightarrow> py_error + layout list" where
  "generate_layouts a =
     (case max_cells (frame_width a) of
        Inl e \<Rightarrow> Inl e
      | Inr max_columns \<Rightarrow>
          (case max_cells (frame_height a) of
             Inl e \<Rightarrow> Inl e
           | Inr max_rows \<Rightarrow> Inr (grid max_columns max_rows)))"

definition generate_sparse_layouts :: "animation \<Rightarrow> py_error + layout list" where
  "generate_sparse_layouts a =
     (case generate_layouts a of
        Inl e \<Rightarrow> Inl e
      | Inr ls \<Rightarrow> Inr (filter (\<lambda>l. columns l * rows l > frame_count a) ls))"

definition generate_dense_layouts :: "animation \<Rightarrow> py_error + layout list" where
  "generate_dense_layouts a =
     (case generate_layouts a of
        Inl e \<Rightarrow> Inl e
      | Inr ls \<Rightarrow> Inr (filter (\<lambda>l. columns l * rows l \<le> frame_count a) ls))"

definition select_better_layout :: "animation \<Rightarrow> layout \<Rightarrow> layout \<Rightarrow> layout" where
  "select_better_layout a layout1 layout2 =
     (let layout1_frame_delta = \<bar>columns layout1 * rows layout1 - frame_count a\<bar>;
          layout2_frame_delta = \<bar>columns layout2 * rows layout2 - frame_count a\<bar>
      in if layout1_frame_delta < layout2_frame_delta then layout1
         else if layout1_frame_delta > layout2_frame_delta then layout2
         else
           (let layout1_side_length_delta =
                  \<bar>columns layout1 * frame_width a - rows layout1 * frame_height a\<bar>;
                layout2_side_length_delta =
                  \<bar>columns layout2 * frame_width a - rows layout2 * frame_height a\<bar>
            in if layout1_side_length_delta < layout2_side_length_delta then layout1
               else if layout1_side_length_delta > layout2_side_length_delta then layout2
               else layout1))"

text \<open>The body of the \<open>for\<close> loop of \<open>compute_layout\<close>, and the loop itself.\<close>

definition best_step :: "animation \<Rightarrow> layout option \<Rightarrow> layout \<Rightarrow> layout option" where
  "best_step a best_layout l =
     (case best_layout of
        None \<Rightarrow> Some l
      | Some b \<Rightarrow> Some (select_better_layout a b l))"

definition best_of :: "animation \<Rightarrow> layout list \<Rightarrow> layout option" where
  "best_of a possible_layouts = foldl (best_step a) None possible_layouts"

definition compute_layout :: "animation \<Rightarrow> bool \<Rightarrow> py_error + layout option" where
  "compute_layout a sparse =
     (case (if sparse then generate_sparse_layouts a else generate_dense_layouts a) of
        Inl e \<Rightarrow> Inl e
      | Inr possible_layouts \<Rightarrow> Inr (best_of a possible_layouts))"

text \<open>
  The part of \<open>pack_animation\<close> that decides what is reported, as a function of the
  descriptor the function builds from the matched files: the two early exits, the chosen
  layout, and the shortening diagnostic (frames to remove, and frames to add when a sparse
  layout exists).  Opening, pasting and writing images are outside the model.
\<close>

datatype diagnostic = Shortened int "int option"

datatype pack_outcome = NoFrames | NoLayout | Packed layout "diagnostic option"

definition pack_animation :: "animation \<Rightarrow> py_error + pack_outcome" where
  "pack_animation a =
     (if frame_count a = 0 then Inr NoFrames
      else
        (case compute_layout a False of
           Inl e \<Rightarrow> Inl e
         | Inr None \<Rightarrow> Inr NoLayout
         | Inr (Some l) \<Rightarrow>
             (let packed_frame_count = rows l * columns l
              in if packed_frame_count < frame_count a then
                   (let removed_frame_count = frame_count a - packed_frame_count
                    in case compute_layout a True of
                         Inl e \<Rightarrow> Inl e
                       | Inr None \<Rightarrow> Inr (Packed l (Some (Shortened removed_frame_count None)))
                       | Inr (Some sparse_layout) \<Rightarrow>
                           Inr (Packed l (Some (Shortened removed_frame_count
                             (Some (rows sparse_layout * columns sparse_layout - frame_count a))))))
                 else Inr (Packed l None))))"

section \<open>pack\_images.py: simulated annealing\<close>

definition state_valid :: "layout \<Rightarrow> animation \<Rightarrow> bool" where
  "state_valid state a =
     (if rows state = 0 \<or> columns state = 0 then False
      else
        (let width = columns state * frame_width a;
             height = rows state * frame_height a
         in if width > 11000 \<or> height > 11000 then False
            else rows state * columns state \<le> frame_count a))"

definition mutations :: "(int \<Rightarrow> int) \<times> (int \<Rightarrow> int)" where
  "mutations = (\<lambda>x. x + 1, \<lambda>x. x - 1)"

subsection \<open>Numbers and the arithmetic of the interpreter\<close>

text \<open>
  A temperature is a Python number: the integer \<open>15\<close> to begin with, a float after the
  first cooling.  The type \<open>'f\<close> of floats and the operations on it that the loop uses are
  a parameter of the model, so that what is proved of the loop for every such arithmetic
  holds of the interpreter's, whatever its rounding and whatever the C library's
  exponential returns.  Each field is one Python expression of the script:
  \<^item> \<open>number_gt a b\<close> is \<open>a > b\<close> on two numbers;
  \<^item> \<open>int_truediv i t\<close> is \<open>i / t\<close> for an integer \<open>i\<close> and a number \<open>t\<close>;
  \<^item> \<open>math_exp x\<close> is \<open>math.exp(x)\<close>;
  \<^item> \<open>float_gt x y\<close> is \<open>x > y\<close> on two floats;
  \<^item> \<open>number_sub t x\<close> is \<open>t - x\<close> for a number \<open>t\<close> and a float \<open>x\<close>;
  \<^item> \<open>literal_0_001\<close> is the literal \<open>0.001\<close>.
\<close>

datatype 'f number = PyInt int | PyFloat 'f

record 'f arithmetic =
  number_gt :: "'f number \<Rightarrow> 'f number \<Rightarrow> bool"
  int_truediv :: "int \<Rightarrow> 'f number \<Rightarrow> py_error + 'f"
  math_exp :: "'f \<Rightarrow> py_error + 'f"
  float_gt :: "'f \<Rightarrow> 'f \<Rightarrow> bool"
  number_sub :: "'f number \<Rightarrow> 'f \<Rightarrow> py_error + 'f"
  literal_0_001 :: "'f"

text \<open>
  The script draws from the process-wide generator.  Here the draws of one loop iteration
  are a value: which element of \<open>mutations\<close> \<open>random.choice\<close> picked, the integer returned
  by \<open>random.randint(0, 1)\<close>, and the float returned by \<open>random.random()\<close> (read only
  when the acceptance test gets as far as the exponential).
\<close>

record 'f draw =
  choice_first :: bool
  randint :: int
  uniform :: "'f"

definition mutate_state :: "layout \<Rightarrow> animation \<Rightarrow> 'f draw \<Rightarrow> layout" where
  "mutate_state state a d =
     (let mutation = (if choice_first d then fst mutations else snd mutations);
          next_state =
            (if randint d \<noteq> 0 then \<lparr>columns = mutation (columns state), rows = rows state\<rparr>
             else \<lparr>columns = columns state, rows = mutation (rows state)\<rparr>)
      in if state_valid next_state a then next_state else state)"

definition compute_energy :: "layout \<Rightarrow> animation \<Rightarrow> int" where
  "compute_energy state a = frame_count a - rows state * columns state"

subsection \<open>The optimizer\<close>

text \<open>
  \<open>AnnealingParams\<close>.  The two function-valued fields carry the suffix \<open>_fn\<close>, since the
  module-level functions of the same names are constants of this theory too.  Energies are
  Python integers, as those of the layout search are.
\<close>

record ('s, 'f) annealing_params =
  initial_state :: 's
  mutate_state_fn :: "'s \<Rightarrow> 'f draw \<Rightarrow> 's"
  compute_energy_fn :: "'s \<Rightarrow> int"
  temp_max :: "'f number"
  temp_min :: "'f number"
  cool_temp :: "'f number \<Rightarrow> py_error + 'f number"

text \<open>
  The loop's acceptance test
  \<open>next_energy < current_energy or math.exp((current_energy - next_energy) / current_temp) > random.random()\<close>:
  \<open>or\<close> short-circuits; the division and the exponential can raise.
\<close>

definition accepts ::
  "'f arithmetic \<Rightarrow> int \<Rightarrow> int \<Rightarrow> 'f number \<Rightarrow> 'f \<Rightarrow> py_error + bool" where
  "accepts ar current_energy next_energy current_temp u =
     (if next_energy < current_energy then Inr True
      else
        (case int_truediv ar (current_energy - next_energy) current_temp of
           Inl e \<Rightarrow> Inl e
         | Inr q \<Rightarrow>
             (case math_exp ar q of
                Inl e \<Rightarrow> Inl e
              | Inr y \<Rightarrow> Inr (float_gt ar y u))))"

text \<open>
  One pass through the body of the \<open>while\<close> loop up to the cooling, on the loop's variables
  \<open>(current_state, current_energy, best_state, best_energy)\<close>.
\<close>

type_synonym 's annealing_vars = "'s \<times> int \<times> 's \<times> int"

definition annealing_step ::
  "'f arithmetic \<Rightarrow> ('s, 'f) annealing_params \<Rightarrow> 'f draw \<Rightarrow> 'f number \<Rightarrow> 's annealing_vars
     \<Rightarrow> py_error + 's annealing_vars" where
  "annealing_step ar p d current_temp vars =
     (case vars of (current_state, current_energy, best_state, best_energy) \<Rightarrow>
        (let next_state = mutate_state_fn p current_state d;
             next_energy = compute_energy_fn p next_state
         in case accepts ar current_energy next_energy current_temp (uniform d) of
              Inl e \<Rightarrow> Inl e
            | Inr True \<Rightarrow>
                (if next_energy < best_energy
                 then Inr (next_state, next_energy, next_state, next_energy)
                 else Inr (next_state, next_energy, best_state, best_energy))
            | Inr False \<Rightarrow> Inr (current_state, current_energy, best_state, best_energy)))"

text \<open>
  The \<open>while\<close> loop.  Nothing in the engine bounds the number of iterations (that is up to
  \<open>cool_temp\<close>), so the loop is a partial function: \<open>None\<close> is a run that never returns,
  \<open>Some (Inl e)\<close> one that raises \<open>e\<close>.  \<open>draws i\<close> are the draws of iteration \<open>i\<close>.
\<close>

partial_function (option) annealing_loop ::
  "'f arithmetic \<Rightarrow> ('s, 'f) annealing_params \<Rightarrow> (nat \<Rightarrow> 'f draw) \<Rightarrow> nat \<Rightarrow> 's annealing_vars
     \<Rightarrow> 'f number \<Rightarrow> (py_error + 's) option" where
  "annealing_loop ar p draws i vars current_temp =
     (if number_gt ar current_temp (temp_min p) then
        (case annealing_step ar p (draws i) current_temp vars of
           Inl e \<Rightarrow> Some (Inl e)
         | Inr vars' \<Rightarrow>
             (case cool_temp p current_temp of
                Inl e \<Rightarrow> Some (Inl e)
              | Inr temp' \<Rightarrow> annealing_loop ar p draws (Suc i) vars' temp'))
      else Some (Inr (fst (snd (snd vars)))))"

definition simulate_annealing ::
  "'f arithmetic \<Rightarrow> ('s, 'f) annealing_params \<Rightarrow> (nat \<Rightarrow> 'f draw) \<Rightarrow> (py_error + 's) option" where
  "simulate_annealing ar p draws =
     (let current_state = initial_state p;
          current_energy = compute_energy_fn p current_state
      in annealing_loop ar p draws 0
           (current_state, current_energy, current_state, current_energy) (temp_max p))"

text \<open>
  The configuration that \<open>compute_layout\<close> of pack\_images.py hands to the optimizer.  The
  initial state is an argument: the script computes it in \<open>make_initial_state\<close> with
  \<open>math.sqrt\<close> and float division.
\<close>

definition layout_params ::
  "'f arithmetic \<Rightarrow> animation \<Rightarrow> layout \<Rightarrow> (layout, 'f) annealing_params" where
  "layout_params ar a init =
     \<lparr>initial_state = init,
      mutate_state_fn = (\<lambda>state. mutate_state state a),
      compute_energy_fn = (\<lambda>state. compute_energy state a),
      temp_max = PyInt 15,
      temp_min = PyFloat (literal_0_001 ar),
      cool_temp = (\<lambda>temp. case number_sub ar temp (literal_0_001 ar) of
                             Inl e \<Rightarrow> Inl e
                           | Inr x \<Rightarrow> Inr (PyFloat x))\<rparr>"

definition repeat_draw :: "'f draw \<Rightarrow> nat \<Rightarrow> 'f draw" where
  "repeat_draw d i = d"

subsection \<open>Binary64 arithmetic\<close>

text \<open>
  The arithmetic of CPython on IEEE 754 doubles, rounding to nearest, ties to even.  A
  finite double is the real number it denotes; the two zeros are one value, which no
  operation of the loop tells apart (a division by either raises, the exponential of
  either is 1, comparisons treat them as equal).
\<close>

datatype double = Finite real | PosInf | NegInf | NaN

definition round_even :: "real \<Rightarrow> int" where
  "round_even q =
     (let f = \<lfloor>q\<rfloor>
      in if q - of_int f < 1 / 2 then f
         else if q - of_int f > 1 / 2 then f + 1
         else if even f then f else f + 1)"

text \<open>
  The exponent of the binade of \<open>x\<close>, not below that of the subnormal numbers, and the
  distance between neighbouring doubles there.
\<close>

definition exponent :: "real \<Rightarrow> int" where
  "exponent x = max (- 1022) \<lfloor>log 2 \<bar>x\<bar>\<rfloor>"

definition ulp :: "real \<Rightarrow> real" where
  "ulp x = 2 powr (of_int (exponent x) - 52)"

definition round_real :: "real \<Rightarrow> real" where
  "round_real x = (if x = 0 then 0 else of_int (round_even (x / ulp x)) * ulp x)"

definition DBL_MAX :: real where
  "DBL_MAX = (2 ^ 53 - 1) * 2 ^ 971"

definition round_double :: "real \<Rightarrow> double" where
  "round_double x =
     (let y = round_real x
      in if y > DBL_MAX then PosInf else if y < - DBL_MAX then NegInf else Finite y)"

fun double_sub :: "double \<Rightarrow> double \<Rightarrow> double" where
  "double_sub (Finite x) (Finite y) = round_double (x - y)"
| "double_sub NaN _ = NaN"
| "double_sub _ NaN = NaN"
| "double_sub PosInf PosInf = NaN"
| "double_sub NegInf NegInf = NaN"
| "double_sub PosInf _ = PosInf"
| "double_sub NegInf _ = NegInf"
| "double_sub (Finite x) PosInf = NegInf"
| "double_sub (Finite x) NegInf = PosInf"

text \<open>Float division for a divisor that is not zero.\<close>

fun ieee_div :: "double \<Rightarrow> double \<Rightarrow> double" where
  "ieee_div (Finite x) (Finite y) = round_double (x / y)"
| "ieee_div NaN _ = NaN"
| "ieee_div _ NaN = NaN"
| "ieee_div (Finite x) _ = Finite 0"
| "ieee_div PosInf (Finite y) = (if 0 < y then PosInf else NegInf)"
| "ieee_div NegInf (Finite y) = (if 0 < y then NegInf else PosInf)"
| "ieee_div _ _ = NaN"

definition double_div :: "double \<Rightarrow> double \<Rightarrow> py_error + double" where
  "double_div x y = (if y = Finite 0 then Inl ZeroDivisionError else Inr (ieee_div x y))"

fun double_gt :: "double \<Rightarrow> double \<Rightarrow> bool" where
  "double_gt (Finite x) (Finite y) = (x > y)"
| "double_gt NaN _ = False"
| "double_gt _ NaN = False"
| "double_gt PosInf PosInf = False"
| "double_gt PosInf _ = True"
| "double_gt NegInf _ = False"
| "double_gt (Finite x) PosInf = False"
| "double_gt (Finite x) NegInf = True"

text \<open>Conversion of an integer, and the quotient of two integers, raise when out of range.\<close>

definition finite_or_raise :: "double \<Rightarrow> py_error + double" where
  "finite_or_raise d = (case d of Finite y \<Rightarrow> Inr (Finite y) | _ \<Rightarrow> Inl OverflowError)"

definition int_to_double :: "int \<Rightarrow> py_error + double" where
  "int_to_double n = finite_or_raise (round_double (of_int n))"

text \<open>Python compares an integer with a float by value, without rounding the integer.\<close>

definition number_value :: "double number \<Rightarrow> double" where
  "number_value t = (case t of PyInt i \<Rightarrow> Finite (of_int i) | PyFloat d \<Rightarrow> d)"

definition ieee_number_gt :: "double number \<Rightarrow> double number \<Rightarrow> bool" where
  "ieee_number_gt a b = double_gt (number_value a) (number_value b)"

definition ieee_int_truediv :: "int \<Rightarrow> double number \<Rightarrow> py_error + double" where
  "ieee_int_truediv n t =
     (case t of
        PyInt k \<Rightarrow>
          (if k = 0 then Inl ZeroDivisionError
           else finite_or_raise (round_double (of_int n / of_int k)))
      | PyFloat d \<Rightarrow>
          (case int_to_double n of
             Inl e \<Rightarrow> Inl e
           | Inr x \<Rightarrow> double_div x d))"

definition ieee_number_sub :: "double number \<Rightarrow> double \<Rightarrow> py_error + double" where
  "ieee_number_sub t x =
     (case t of
        PyInt i \<Rightarrow>
          (case int_to_double i of
             Inl e \<Rightarrow> Inl e
           | Inr y \<Rightarrow> Inr (double_sub y x))
      | PyFloat y \<Rightarrow> Inr (double_sub y x))"

text \<open>
  \<open>math.exp\<close> calls the C library's \<open>exp\<close>, which is the parameter \<open>libm_exp\<close> (on finite
  arguments), and raises when a finite argument gives an infinite result (or a NaN).
\<close>

definition ieee_math_exp :: "(real \<Rightarrow> double) \<Rightarrow> double \<Rightarrow> py_error + double" where
  "ieee_math_exp libm_exp x =
     (case x of
        Finite r \<Rightarrow>
          (case libm_exp r of
             Finite y \<Rightarrow> Inr (Finite y)
           | NaN \<Rightarrow> Inl ValueError
           | _ \<Rightarrow> Inl OverflowError)
      | PosInf \<Rightarrow> Inr PosInf
      | NegInf \<Rightarrow> Inr (Finite 0)
      | NaN \<Rightarrow> Inr NaN)"

definition ieee :: "(real \<Rightarrow> double) \<Rightarrow> double arithmetic" where
  "ieee libm_exp =
     \<lparr>number_gt = ieee_number_gt,
      int_truediv = ieee_int_truediv,
      math_exp = ieee_math_exp libm_exp,
      float_gt = double_gt,
      number_sub = ieee_number_sub,
      literal_0_001 = round_double (1 / 1000)\<rparr>"

text \<open>A C library whose exponential is correctly rounded.\<close>

definition rounded_exp :: "real \<Rightarrow> double" where
  "rounded_exp r = round_double (exp r)"

subsection \<open>Notions used in the proofs about the schedule\<close>

text \<open>
  The temperatures the schedule of \<open>compute_layout\<close> passes through (the integer 15, then
  finite floats of magnitude at most 16), a real-valued level of a temperature that every
  cooling lowers by at least 1/2000, and the C libraries whose exponential is finite
  wherever its argument is not positive.
\<close>

definition schedule_temp :: "double number \<Rightarrow> bool" where
  "schedule_temp t =
     (case t of
        PyInt k \<Rightarrow> k = 15
      | PyFloat d \<Rightarrow> (case d of Finite x \<Rightarrow> \<bar>x\<bar> \<le> 16 | _ \<Rightarrow> False))"

definition temp_level :: "double number \<Rightarrow> real" where
  "temp_level t =
     (case t of
        PyInt k \<Rightarrow> of_int k + 1
      | PyFloat d \<Rightarrow> (case d of Finite x \<Rightarrow> x | _ \<Rightarrow> 0))"

definition exp_finite :: "(real \<Rightarrow> double) \<Rightarrow> bool" where
  "exp_finite libm_exp \<longleftrightarrow> (\<forall>r\<le>0. \<exists>y. libm_exp r = Finite y)"

section \<open>The exhaustive search: auxiliary facts\<close>

text \<open>The fold of \<open>compute_layout\<close> returns one of the candidates it was given.\<close>

lemma select_better_layout_cases:
  "select_better_layout a x y = x \<or> select_better_layout a x y = y"
  by (simp add: select_better_layout_def Let_def)

lemma best_step_simps:
  "best_step a None l = Some l"
  "best_step a (Some b) l = Some (select_better_layout a b l)"
  by (simp_all add: best_step_def)

lemma foldl_best_step_Some:
  "\<exists>l. foldl (best_step a) (Some b) xs = Some l \<and> (l = b \<or> l \<in> set xs)"
proof (induction xs arbitrary: b)
  case Nil
  then show ?case by simp
next
  case (Cons x xs)
  obtain l where l: "foldl (best_step a) (Some (select_better_layout a b x)) xs = Some l"
    "l = select_better_layout a b x \<or> l \<in> set xs"
    using Cons.IH by blast
  then show ?case
    using select_better_layout_cases [of a b x] by (auto simp: best_step_simps)
qed

lemma best_of_Nil: "best_of a [] = None"
  by (simp add: best_of_def)

lemma best_of_Cons: "\<exists>l. best_of a (x # xs) = Some l \<and> l \<in> set (x # xs)"
  using foldl_best_step_Some [of a x xs] by (auto simp: best_of_def best_step_simps)

lemma best_of_in_set: "best_of a xs = Some l \<Longrightarrow> l \<in> set xs"
proof (cases xs)
  case Nil
  assume "best_of a xs = Some l"
  with Nil show ?thesis by (simp add: best_of_Nil)
next
  case (Cons y ys)
  assume "best_of a xs = Some l"
  with Cons best_of_Cons [of a y ys] show ?thesis by auto
qed

lemma best_of_None_iff: "best_of a xs = None \<longleftrightarrow> xs = []"
proof (cases xs)
  case Nil
  then show ?thesis by (simp add: best_of_Nil)
next
  case (Cons y ys)
  then show ?thesis using best_of_Cons [of a y ys] by auto
qed

lemma grid_product:
  "grid mc mr = map (\<lambda>(c, r). \<lparr>columns = c, rows = r\<rparr>) (List.product [1..mc] [1..mr])"
  by (simp add: grid_def product_concat_map map_concat comp_def)

lemma set_grid:
  "set (grid mc mr) = {l. 1 \<le> columns l \<and> columns l \<le> mc \<and> 1 \<le> rows l \<and> rows l \<le> mr}"
proof (rule set_eqI)
  fix l :: layout
  have "l \<in> set (grid mc mr) \<longleftrightarrow> (\<exists>c r. l = \<lparr>columns = c, rows = r\<rparr> \<and> 1 \<le> c \<and> c \<le> mc \<and> 1 \<le> r \<and> r \<le> mr)"
    by (auto simp: grid_product)
  also have "\<dots> \<longleftrightarrow> 1 \<le> columns l \<and> columns l \<le> mc \<and> 1 \<le> rows l \<and> rows l \<le> mr"
    by (cases l) auto
  finally show "l \<in> set (grid mc mr) \<longleftrightarrow>
      l \<in> {l. 1 \<le> columns l \<and> columns l \<le> mc \<and> 1 \<le> rows l \<and> rows l \<le> mr}"
    by simp
qed

lemma distinct_grid: "distinct (grid mc mr)"
  unfolding grid_product
  by (rule iffD2 [OF distinct_map]) (auto simp: distinct_product inj_on_def)

text \<open>A side that holds at least one cell has a positive frame length, where truncation is floor.\<close>

lemma max_cells_pos:
  assumes "max_cells w = Inr m" and "1 \<le> m"
  shows "0 < w \<and> m = 11000 div w"
proof (cases "0 < w")
  case True
  with assms(1) show ?thesis
    by (simp add: max_cells_def MAX_SIDE_LENGTH_def)
next
  case False
  with assms(1) have w: "w < 0" and m: "m = - (11000 div (- w))"
    by (auto simp: max_cells_def MAX_SIDE_LENGTH_def split: if_splits)
  have "0 \<le> 11000 div (- w)"
    using w by (simp add: pos_imp_zdiv_nonneg_iff)
  with m assms(2) show ?thesis by simp
qed

text \<open>
  The dense part of the grid, column by column: column \<open>c\<close> keeps the rows up to
  \<open>n div c\<close>, and the columns beyond \<open>n\<close> keep none.  This is what makes the concrete
  searches below small enough to evaluate.
\<close>

lemma filter_upto_le: "filter (\<lambda>r. r \<le> k) [1..m] = [1..min m (k::int)]"
  by (rule sorted_distinct_set_unique) (auto simp: sorted_filter [where f = id, simplified])

lemma mult_le_div: "0 < c \<Longrightarrow> c * r \<le> n \<longleftrightarrow> r \<le> n div (c::int)"
proof
  assume c: "0 < c" and "c * r \<le> n"
  then have "(c * r) div c \<le> n div c" by (intro zdiv_mono1) auto
  with c show "r \<le> n div c" by simp
next
  assume c: "0 < c" and r: "r \<le> n div c"
  then have "c * r \<le> c * (n div c)" by (intro mult_left_mono) auto
  also have "\<dots> \<le> n"
  proof -
    have "c * (n div c) + n mod c = n" by simp
    moreover have "0 \<le> n mod c" using c by simp
    ultimately show ?thesis by linarith
  qed
  finally show "c * r \<le> n" .
qed

lemma dense_row:
  assumes "1 \<le> c"
  shows "filter (\<lambda>l. columns l * rows l \<le> n) (map (\<lambda>r. \<lparr>columns = c, rows = r\<rparr>) [1..mr])
       = map (\<lambda>r. \<lparr>columns = c, rows = r\<rparr>) [1..min mr (n div c)]"
proof -
  have "filter (\<lambda>l. columns l * rows l \<le> n) (map (\<lambda>r. \<lparr>columns = c, rows = r\<rparr>) [1..mr])
      = map (\<lambda>r. \<lparr>columns = c, rows = r\<rparr>) (filter (\<lambda>r. r \<le> n div c) [1..mr])"
    using assms by (simp add: filter_map comp_def mult_le_div)
  then show ?thesis by (simp add: filter_upto_le)
qed

lemma dense_grid:
  "filter (\<lambda>l. columns l * rows l \<le> n) (grid mc mr)
     = concat (map (\<lambda>c. map (\<lambda>r. \<lparr>columns = c, rows = r\<rparr>) [1..min mr (n div c)]) [1..mc])"
proof -
  have "filter (\<lambda>l. columns l * rows l \<le> n) (grid mc mr)
      = concat (map (\<lambda>c. filter (\<lambda>l. columns l * rows l \<le> n)
                 (map (\<lambda>r. \<lparr>columns = c, rows = r\<rparr>) [1..mr])) [1..mc])"
    by (simp add: grid_def filter_concat comp_def)
  also have "\<dots> = concat (map (\<lambda>c. map (\<lambda>r. \<lparr>columns = c, rows = r\<rparr>) [1..min mr (n div c)]) [1..mc])"
    by (intro arg_cong [where f = concat] map_cong refl dense_row) simp
  finally show ?thesis .
qed

lemma concat_map_upto_trim:
  assumes "\<And>c. k < c \<Longrightarrow> f c = []" and "0 \<le> k" and "k \<le> m"
  shows "concat (map f [1..m]) = concat (map f [1..(k::int)])"
proof -
  have "[1..m] = [1..k] @ [k + 1..m]"
  proof (cases "k = 0")
    case True
    then show ?thesis by simp
  next
    case False
    with assms(2,3) show ?thesis by (intro upto_split2) auto
  qed
  moreover have "concat (map f [k + 1..m]) = []"
    using assms(1) by auto
  ultimately show ?thesis by simp
qed

lemma dense_grid_trim:
  assumes "0 \<le> n" and "n \<le> mc"
  shows "filter (\<lambda>l. columns l * rows l \<le> n) (grid mc mr)
     = concat (map (\<lambda>c. map (\<lambda>r. \<lparr>columns = c, rows = r\<rparr>) [1..min mr (n div c)]) [1..n])"
  unfolding dense_grid using assms
  by (intro concat_map_upto_trim) (auto simp: div_pos_pos_trivial)

lemma upto_from_1:
  "[1..numeral n] = (if (1::int) \<le> numeral n then 1 # [1 + 1..numeral n] else [])"
  "[1..1] = [1::int]"
  by (simp_all add: upto.simps [of 1])

lemmas exhaustive_defs =
  compute_layout_def generate_dense_layouts_def generate_sparse_layouts_def
  generate_layouts_def max_cells_def MAX_SIDE_LENGTH_def

lemmas fold_defs = best_of_def best_step_simps select_better_layout_def

lemma dense_10:
  "generate_dense_layouts \<lparr>frame_width = 100, frame_height = 100, frame_count = 10, fps = f\<rparr>
     = Inr (concat (map (\<lambda>c. map (\<lambda>r. \<lparr>columns = c, rows = r\<rparr>) [1..min 110 (10 div c)])
         [1..10]))"
  by (simp add: exhaustive_defs dense_grid_trim)

lemma dense_11:
  "generate_dense_layouts \<lparr>frame_width = 100, frame_height = 100, frame_count = 11, fps = f\<rparr>
     = Inr (concat (map (\<lambda>c. map (\<lambda>r. \<lparr>columns = c, rows = r\<rparr>) [1..min 110 (11 div c)])
         [1..11]))"
  by (simp add: exhaustive_defs dense_grid_trim)

lemma compute_layout_dense:
  "compute_layout a False =
     (case generate_dense_layouts a of Inl e \<Rightarrow> Inl e | Inr xs \<Rightarrow> Inr (best_of a xs))"
  by (simp add: compute_layout_def)

lemma compute_layout_sparse:
  "compute_layout a True =
     (case generate_sparse_layouts a of Inl e \<Rightarrow> Inl e | Inr xs \<Rightarrow> Inr (best_of a xs))"
  by (simp add: compute_layout_def)

lemma compute_layout_11:
  "compute_layout \<lparr>frame_width = 100, frame_height = 100, frame_count = 11, fps = f\<rparr> False
     = Inr (Some \<lparr>columns = 1, rows = 11\<rparr>)"
  by (simp add: compute_layout_dense dense_11 fold_defs upto_from_1)

lemma pack_animation_11:
  "pack_animation \<lparr>frame_width = 100, frame_height = 100, frame_count = 11, fps = f\<rparr>
     = Inr (Packed \<lparr>columns = 1, rows = 11\<rparr> None)"
  by (simp add: pack_animation_def compute_layout_11)

lemma small_dense:
  "compute_layout \<lparr>frame_width = 5000, frame_height = 5000, frame_count = 3, fps = f\<rparr> False
     = Inr (Some \<lparr>columns = 1, rows = 2\<rparr>)"
  by (simp add: exhaustive_defs grid_def fold_defs upto_from_1)

lemma small_sparse:
  "compute_layout \<lparr>frame_width = 5000, frame_height = 5000, frame_count = 3, fps = f\<rparr> True
     = Inr (Some \<lparr>columns = 2, rows = 2\<rparr>)"
  by (simp add: exhaustive_defs grid_def fold_defs upto_from_1)

lemma small_grid:
  "generate_layouts \<lparr>frame_width = 5000, frame_height = 5000, frame_count = 3, fps = f\<rparr>
     = Inr [\<lparr>columns = 1, rows = 1\<rparr>, \<lparr>columns = 1, rows = 2\<rparr>,
            \<lparr>columns = 2, rows = 1\<rparr>, \<lparr>columns = 2, rows = 2\<rparr>]"
  by (simp add: exhaustive_defs grid_def upto_from_1)

lemma compute_layout_in_grid:
  assumes "compute_layout a sparse = Inr (Some l)"
  obtains g where "generate_layouts a = Inr g" and "l \<in> set g"
    and "if sparse then columns l * rows l > frame_count a
         else columns l * rows l \<le> frame_count a"
proof (cases "generate_layouts a")
  case (Inl e)
  with assms show ?thesis
    by (cases sparse)
      (simp_all add: compute_layout_def generate_dense_layouts_def generate_sparse_layouts_def)
next
  case (Inr g)
  with assms have
    "best_of a (filter (\<lambda>l. if sparse then columns l * rows l > frame_count a
                            else columns l * rows l \<le> frame_count a) g) = Some l"
    by (simp add: compute_layout_def generate_dense_layouts_def generate_sparse_layouts_def
        split: if_splits)
  from best_of_in_set [OF this] Inr that show ?thesis by simp
qed

lemma generate_layouts_members:
  assumes "generate_layouts a = Inr g" and "l \<in> set g"
  shows "0 < frame_width a \<and> 0 < frame_height a
       \<and> 1 \<le> columns l \<and> columns l \<le> 11000 div frame_width a
       \<and> 1 \<le> rows l \<and> rows l \<le> 11000 div frame_height a"
proof -
  from assms(1) obtain mc mr where mc: "max_cells (frame_width a) = Inr mc"
    and mr: "max_cells (frame_height a) = Inr mr" and g: "g = grid mc mr"
    by (auto simp: generate_layouts_def split: sum.splits)
  from assms(2) g have l: "1 \<le> columns l" "columns l \<le> mc" "1 \<le> rows l" "rows l \<le> mr"
    by (simp_all add: set_grid)
  then have "1 \<le> mc" "1 \<le> mr" by simp_all
  with mc mr max_cells_pos show ?thesis using l by blast
qed

lemma generate_layouts_too_wide:
  assumes "11000 < frame_width a" and "frame_height a \<noteq> 0"
  shows "generate_layouts a = Inr []"
  using assms
  by (auto simp: generate_layouts_def max_cells_def MAX_SIDE_LENGTH_def grid_def
      div_pos_pos_trivial)

lemma generate_layouts_too_high:
  assumes "11000 < frame_height a" and "frame_width a \<noteq> 0"
  shows "generate_layouts a = Inr []"
  using assms
  by (auto simp: generate_layouts_def max_cells_def MAX_SIDE_LENGTH_def grid_def
      div_pos_pos_trivial)

lemma empty_grid_None:
  "generate_layouts a = Inr [] \<Longrightarrow> compute_layout a sparse = Inr None"
  by (simp add: compute_layout_def generate_dense_layouts_def generate_sparse_layouts_def
      best_of_Nil)

section \<open>The exhaustive search: properties\<close>

text \<open>
  C1.  For the descriptor with frames of 100 by 100 pixels, 10 frames and 24 frames per
  second, each side holds at most 110 cells; the dense candidates whose capacity is exactly
  10 are, in iteration order, (1,10), (2,5), (5,2) and (10,1), with side-length differences
  900, 300, 300 and 900; the comparator prefers (2,5), its first argument, to (5,2); and the
  dense search returns the layout of 2 columns and 5 rows.
\<close>

theorem compute_layout_example:
  "max_cells 100 = Inr 110
   \<and> (case generate_dense_layouts
            \<lparr>frame_width = 100, frame_height = 100, frame_count = 10, fps = 24\<rparr> of
         Inl e \<Rightarrow> False
       | Inr xs \<Rightarrow>
           filter (\<lambda>l. \<bar>columns l * rows l - 10\<bar> = 0) xs
             = [\<lparr>columns = 1, rows = 10\<rparr>, \<lparr>columns = 2, rows = 5\<rparr>,
                \<lparr>columns = 5, rows = 2\<rparr>, \<lparr>columns = 10, rows = 1\<rparr>])
   \<and> map (\<lambda>l. \<bar>columns l * 100 - rows l * 100\<bar>)
         [\<lparr>columns = 1, rows = 10\<rparr>, \<lparr>columns = 2, rows = 5\<rparr>,
          \<lparr>columns = 5, rows = 2\<rparr>, \<lparr>columns = 10, rows = 1\<rparr>] = [900, 300, 300, 900]
   \<and> select_better_layout \<lparr>frame_width = 100, frame_height = 100, frame_count = 10, fps = 24\<rparr>
         \<lparr>columns = 2, rows = 5\<rparr> \<lparr>columns = 5, rows = 2\<rparr> = \<lparr>columns = 2, rows = 5\<rparr>
   \<and> compute_layout \<lparr>frame_width = 100, frame_height = 100, frame_count = 10, fps = 24\<rparr> False
         = Inr (Some \<lparr>columns = 2, rows = 5\<rparr>)"
proof -
  have "max_cells 100 = Inr 110"
    by (simp add: max_cells_def MAX_SIDE_LENGTH_def)
  moreover have "(case generate_dense_layouts
            \<lparr>frame_width = 100, frame_height = 100, frame_count = 10, fps = 24\<rparr> of
         Inl e \<Rightarrow> False
       | Inr xs \<Rightarrow>
           filter (\<lambda>l. \<bar>columns l * rows l - 10\<bar> = 0) xs
             = [\<lparr>columns = 1, rows = 10\<rparr>, \<lparr>columns = 2, rows = 5\<rparr>,
                \<lparr>columns = 5, rows = 2\<rparr>, \<lparr>columns = 10, rows = 1\<rparr>])"
    by (simp add: dense_10 upto_from_1)
  moreover have "select_better_layout
         \<lparr>frame_width = 100, frame_height = 100, frame_count = 10, fps = 24\<rparr>
         \<lparr>columns = 2, rows = 5\<rparr> \<lparr>columns = 5, rows = 2\<rparr> = \<lparr>columns = 2, rows = 5\<rparr>"
    by (simp add: select_better_layout_def)
  moreover have "compute_layout
         \<lparr>frame_width = 100, frame_height = 100, frame_count = 10, fps = 24\<rparr> False
         = Inr (Some \<lparr>columns = 2, rows = 5\<rparr>)"
    by (simp add: compute_layout_dense dense_10 fold_defs upto_from_1)
  ultimately show ?thesis by simp
qed

text \<open>
  C2 fails as stated.  With 11 frames of 100 by 100 pixels the grid holds the layout of
  1 column and 11 rows, whose capacity is exactly 11: the dense search returns it, not a
  layout of capacity 10, and the driver reports no shortening at all.
\<close>

theorem shortfall_example_counterexample:
  "compute_layout \<lparr>frame_width = 100, frame_height = 100, frame_count = 11, fps = 24\<rparr> False
     = Inr (Some \<lparr>columns = 1, rows = 11\<rparr>)
   \<and> pack_animation \<lparr>frame_width = 100, frame_height = 100, frame_count = 11, fps = 24\<rparr>
     = Inr (Packed \<lparr>columns = 1, rows = 11\<rparr> None)"
  by (simp add: compute_layout_11 pack_animation_11)

text \<open>
  C2, amended.  With 11 frames of 100 by 100 pixels the dense search returns the layout of
  1 column and 11 rows and the driver reports nothing.  In general, whenever the dense
  search returns a layout whose capacity is below the frame count, the driver reports the
  difference as the number of frames to remove, together with the capacity of the layout
  returned by the sparse search minus the frame count as the number of frames to add, or
  the removal count alone when the sparse search returns nothing.
\<close>

theorem shortfall_diagnostics:
  "compute_layout \<lparr>frame_width = 100, frame_height = 100, frame_count = 11, fps = f\<rparr> False
     = Inr (Some \<lparr>columns = 1, rows = 11\<rparr>)
   \<and> pack_animation \<lparr>frame_width = 100, frame_height = 100, frame_count = 11, fps = f\<rparr>
     = Inr (Packed \<lparr>columns = 1, rows = 11\<rparr> None)
   \<and> (frame_count a \<noteq> 0 \<and> compute_layout a False = Inr (Some l)
        \<and> columns l * rows l < frame_count a \<longrightarrow>
      (\<forall>s. compute_layout a True = Inr (Some s) \<longrightarrow>
         pack_animation a = Inr (Packed l (Some (Shortened
           (frame_count a - columns l * rows l)
           (Some (columns s * rows s - frame_count a))))))
      \<and> (compute_layout a True = Inr None \<longrightarrow>
         pack_animation a = Inr (Packed l (Some (Shortened
           (frame_count a - columns l * rows l) None)))))"
  by (simp add: compute_layout_11 pack_animation_11)
     (simp add: pack_animation_def Let_def mult.commute)

theorem shortfall_diagnostics_witness:
  "frame_count \<lparr>frame_width = 5000, frame_height = 5000, frame_count = 3, fps = 24\<rparr> \<noteq> 0
   \<and> compute_layout \<lparr>frame_width = 5000, frame_height = 5000, frame_count = 3, fps = 24\<rparr> False
       = Inr (Some \<lparr>columns = 1, rows = 2\<rparr>)
   \<and> columns \<lparr>columns = 1, rows = 2\<rparr> * rows \<lparr>columns = 1, rows = 2\<rparr> < (3::int)
   \<and> compute_layout \<lparr>frame_width = 5000, frame_height = 5000, frame_count = 3, fps = 24\<rparr> True
       = Inr (Some \<lparr>columns = 2, rows = 2\<rparr>)
   \<and> pack_animation \<lparr>frame_width = 5000, frame_height = 5000, frame_count = 3, fps = 24\<rparr>
       = Inr (Packed \<lparr>columns = 1, rows = 2\<rparr> (Some (Shortened 1 (Some 1))))"
  using shortfall_diagnostics [of 24
      "\<lparr>frame_width = 5000, frame_height = 5000, frame_count = 3, fps = 24\<rparr>"
      "\<lparr>columns = 1, rows = 2\<rparr>"]
  by (simp add: small_dense small_sparse)

text \<open>
  C3.  \<open>select_better_layout\<close> returns the layout whose capacity is strictly closer to the
  frame count; when the two distances are equal, the layout whose packed width and height
  differ strictly less; and its first argument when both measures are equal.
\<close>

theorem select_better_layout_spec:
  "(\<bar>columns x * rows x - frame_count a\<bar> < \<bar>columns y * rows y - frame_count a\<bar>
      \<longrightarrow> select_better_layout a x y = x)
   \<and> (\<bar>columns y * rows y - frame_count a\<bar> < \<bar>columns x * rows x - frame_count a\<bar>
      \<longrightarrow> select_better_layout a x y = y)
   \<and> (\<bar>columns x * rows x - frame_count a\<bar> = \<bar>columns y * rows y - frame_count a\<bar> \<longrightarrow>
        (\<bar>columns x * frame_width a - rows x * frame_height a\<bar>
           < \<bar>columns y * frame_width a - rows y * frame_height a\<bar>
           \<longrightarrow> select_better_layout a x y = x)
      \<and> (\<bar>columns y * frame_width a - rows y * frame_height a\<bar>
           < \<bar>columns x * frame_width a - rows x * frame_height a\<bar>
           \<longrightarrow> select_better_layout a x y = y)
      \<and> (\<bar>columns x * frame_width a - rows x * frame_height a\<bar>
           = \<bar>columns y * frame_width a - rows y * frame_height a\<bar>
           \<longrightarrow> select_better_layout a x y = x))"
  by (simp add: select_better_layout_def Let_def)


theorem select_better_layout_spec_witness:
  "(\<bar>(2::int) * 5 - 10\<bar> < \<bar>1 * 1 - 10\<bar>
      \<and> select_better_layout \<lparr>frame_width = 100, frame_height = 100, frame_count = 10, fps = 24\<rparr>
            \<lparr>columns = 2, rows = 5\<rparr> \<lparr>columns = 1, rows = 1\<rparr> = \<lparr>columns = 2, rows = 5\<rparr>)
   \<and> (\<bar>(2::int) * 5 - 10\<bar> < \<bar>1 * 1 - 10\<bar>
      \<and> select_better_layout \<lparr>frame_width = 100, frame_height = 100, frame_count = 10, fps = 24\<rparr>
            \<lparr>columns = 1, rows = 1\<rparr> \<lparr>columns = 2, rows = 5\<rparr> = \<lparr>columns = 2, rows = 5\<rparr>)
   \<and> (\<bar>(2::int) * 5 - 10\<bar> = \<bar>1 * 10 - 10\<bar> \<and> \<bar>(2::int) * 100 - 5 * 100\<bar> < \<bar>1 * 100 - 10 * 100\<bar>
      \<and> select_better_layout \<lparr>frame_width = 100, frame_height = 100, frame_count = 10, fps = 24\<rparr>
            \<lparr>columns = 2, rows = 5\<rparr> \<lparr>columns = 1, rows = 10\<rparr> = \<lparr>columns = 2, rows = 5\<rparr>
      \<and> select_better_layout \<lparr>frame_width = 100, frame_height = 100, frame_count = 10, fps = 24\<rparr>
            \<lparr>columns = 1, rows = 10\<rparr> \<lparr>columns = 2, rows = 5\<rparr> = \<lparr>columns = 2, rows = 5\<rparr>)
   \<and> (\<bar>(2::int) * 5 - 10\<bar> = \<bar>5 * 2 - 10\<bar> \<and> \<bar>(2::int) * 100 - 5 * 100\<bar> = \<bar>5 * 100 - 2 * 100\<bar>
      \<and> select_better_layout \<lparr>frame_width = 100, frame_height = 100, frame_count = 10, fps = 24\<rparr>
            \<lparr>columns = 2, rows = 5\<rparr> \<lparr>columns = 5, rows = 2\<rparr> = \<lparr>columns = 2, rows = 5\<rparr>)"
  using
    select_better_layout_spec [of "\<lparr>columns = 2, rows = 5\<rparr>"
      "\<lparr>frame_width = 100, frame_height = 100, frame_count = 10, fps = 24\<rparr>"
      "\<lparr>columns = 1, rows = 1\<rparr>"]
    select_better_layout_spec [of "\<lparr>columns = 1, rows = 1\<rparr>"
      "\<lparr>frame_width = 100, frame_height = 100, frame_count = 10, fps = 24\<rparr>"
      "\<lparr>columns = 2, rows = 5\<rparr>"]
    select_better_layout_spec [of "\<lparr>columns = 2, rows = 5\<rparr>"
      "\<lparr>frame_width = 100, frame_height = 100, frame_count = 10, fps = 24\<rparr>"
      "\<lparr>columns = 1, rows = 10\<rparr>"]
    select_better_layout_spec [of "\<lparr>columns = 1, rows = 10\<rparr>"
      "\<lparr>frame_width = 100, frame_height = 100, frame_count = 10, fps = 24\<rparr>"
      "\<lparr>columns = 2, rows = 5\<rparr>"]
    select_better_layout_spec [of "\<lparr>columns = 2, rows = 5\<rparr>"
      "\<lparr>frame_width = 100, frame_height = 100, frame_count = 10, fps = 24\<rparr>"
      "\<lparr>columns = 5, rows = 2\<rparr>"]
  by simp

text \<open>
  C6.  When the grid is generated, the dense and the sparse sequence are generated too,
  they have no layout in common, together they hold exactly the layouts of the grid (each
  once, as the grid itself holds each layout once), a layout of the grid whose capacity is
  at most the frame count is in the dense sequence only, and one whose capacity exceeds it
  is in the sparse sequence only.  When generating the grid raises, both raise the same.
\<close>

theorem dense_sparse_partition:
  "case generate_layouts a of
     Inl e \<Rightarrow> generate_dense_layouts a = Inl e \<and> generate_sparse_layouts a = Inl e
   | Inr g \<Rightarrow>
       (\<exists>d s. generate_dense_layouts a = Inr d \<and> generate_sparse_layouts a = Inr s
          \<and> set d \<inter> set s = {} \<and> set d \<union> set s = set g
          \<and> mset d + mset s = mset g \<and> distinct g
          \<and> (\<forall>l \<in> set g. columns l * rows l \<le> frame_count a \<longrightarrow> l \<in> set d \<and> l \<notin> set s)
          \<and> (\<forall>l \<in> set g. columns l * rows l > frame_count a \<longrightarrow> l \<in> set s \<and> l \<notin> set d))"
proof (cases "generate_layouts a")
  case (Inl e)
  then show ?thesis
    by (simp add: generate_dense_layouts_def generate_sparse_layouts_def)
next
  case (Inr g)
  then have "distinct g"
    by (auto simp: generate_layouts_def distinct_grid split: sum.splits)
  moreover have "mset (filter (\<lambda>l. columns l * rows l \<le> frame_count a) g)
        + mset (filter (\<lambda>l. columns l * rows l > frame_count a) g) = mset g"
    by (simp add: not_le [symmetric])
  ultimately show ?thesis using Inr
    by (auto simp: generate_dense_layouts_def generate_sparse_layouts_def)
qed

theorem dense_sparse_partition_witness:
  "generate_layouts \<lparr>frame_width = 5000, frame_height = 5000, frame_count = 3, fps = 24\<rparr>
     = Inr [\<lparr>columns = 1, rows = 1\<rparr>, \<lparr>columns = 1, rows = 2\<rparr>,
            \<lparr>columns = 2, rows = 1\<rparr>, \<lparr>columns = 2, rows = 2\<rparr>]
   \<and> generate_dense_layouts \<lparr>frame_width = 5000, frame_height = 5000, frame_count = 3, fps = 24\<rparr>
     = Inr [\<lparr>columns = 1, rows = 1\<rparr>, \<lparr>columns = 1, rows = 2\<rparr>, \<lparr>columns = 2, rows = 1\<rparr>]
   \<and> generate_sparse_layouts \<lparr>frame_width = 5000, frame_height = 5000, frame_count = 3, fps = 24\<rparr>
     = Inr [\<lparr>columns = 2, rows = 2\<rparr>]
   \<and> (\<exists>d s. generate_dense_layouts
               \<lparr>frame_width = 5000, frame_height = 5000, frame_count = 3, fps = 24\<rparr> = Inr d
          \<and> generate_sparse_layouts
               \<lparr>frame_width = 5000, frame_height = 5000, frame_count = 3, fps = 24\<rparr> = Inr s
          \<and> set d \<inter> set s = {}
          \<and> mset d + mset s = mset [\<lparr>columns = 1, rows = 1\<rparr>, \<lparr>columns = 1, rows = 2\<rparr>,
                \<lparr>columns = 2, rows = 1\<rparr>, \<lparr>columns = 2, rows = 2\<rparr>])"
  using dense_sparse_partition
    [of "\<lparr>frame_width = 5000, frame_height = 5000, frame_count = 3, fps = 24\<rparr>"]
  by (simp add: small_grid generate_dense_layouts_def generate_sparse_layouts_def)

text \<open>
  C7.  A layout returned by the dense search has capacity at most the frame count; a
  layout returned by the sparse search has capacity above it.
\<close>

theorem compute_layout_capacity:
  "(compute_layout a False = Inr (Some l) \<longrightarrow> columns l * rows l \<le> frame_count a)
   \<and> (compute_layout a True = Inr (Some l) \<longrightarrow> columns l * rows l > frame_count a)"
  by (auto elim!: compute_layout_in_grid)

theorem compute_layout_capacity_witness:
  "compute_layout \<lparr>frame_width = 5000, frame_height = 5000, frame_count = 3, fps = 24\<rparr> False
     = Inr (Some \<lparr>columns = 1, rows = 2\<rparr>)
   \<and> columns \<lparr>columns = 1, rows = 2\<rparr> * rows \<lparr>columns = 1, rows = 2\<rparr> \<le> (3::int)
   \<and> compute_layout \<lparr>frame_width = 5000, frame_height = 5000, frame_count = 3, fps = 24\<rparr> True
     = Inr (Some \<lparr>columns = 2, rows = 2\<rparr>)
   \<and> columns \<lparr>columns = 2, rows = 2\<rparr> * rows \<lparr>columns = 2, rows = 2\<rparr> > (3::int)"
  using
    compute_layout_capacity
      [of "\<lparr>frame_width = 5000, frame_height = 5000, frame_count = 3, fps = 24\<rparr>"
          "\<lparr>columns = 1, rows = 2\<rparr>"]
    compute_layout_capacity
      [of "\<lparr>frame_width = 5000, frame_height = 5000, frame_count = 3, fps = 24\<rparr>"
          "\<lparr>columns = 2, rows = 2\<rparr>"]
  by (simp add: small_dense small_sparse)

text \<open>
  C8.  \<open>compute_layout\<close> returns \<open>None\<close> exactly when the sequence of candidates it
  iterates over is empty.  For a descriptor whose frames are wider than 11000 pixels (and
  whose frame height is not zero, as the spec requires of every descriptor), or higher
  than 11000 pixels (with a frame width that is not zero), the grid is empty and both the
  dense and the sparse search return \<open>None\<close>.
\<close>

theorem compute_layout_None:
  "(generate_dense_layouts a = Inr xs \<longrightarrow> (compute_layout a False = Inr None \<longleftrightarrow> xs = []))
   \<and> (generate_sparse_layouts a = Inr ys \<longrightarrow> (compute_layout a True = Inr None \<longleftrightarrow> ys = []))
   \<and> (11000 < frame_width a \<and> frame_height a \<noteq> 0 \<longrightarrow>
        generate_layouts a = Inr [] \<and> compute_layout a False = Inr None
        \<and> compute_layout a True = Inr None)
   \<and> (11000 < frame_height a \<and> frame_width a \<noteq> 0 \<longrightarrow>
        generate_layouts a = Inr [] \<and> compute_layout a False = Inr None
        \<and> compute_layout a True = Inr None)"
proof -
  have "generate_dense_layouts a = Inr xs \<longrightarrow> (compute_layout a False = Inr None \<longleftrightarrow> xs = [])"
    by (simp add: compute_layout_dense best_of_None_iff)
  moreover
  have "generate_sparse_layouts a = Inr ys \<longrightarrow> (compute_layout a True = Inr None \<longleftrightarrow> ys = [])"
    by (simp add: compute_layout_sparse best_of_None_iff)
  ultimately show ?thesis
    by (simp add: generate_layouts_too_wide generate_layouts_too_high empty_grid_None)
qed

theorem compute_layout_None_witness:
  "generate_dense_layouts \<lparr>frame_width = 5000, frame_height = 5000, frame_count = 3, fps = 24\<rparr>
     = Inr [\<lparr>columns = 1, rows = 1\<rparr>, \<lparr>columns = 1, rows = 2\<rparr>, \<lparr>columns = 2, rows = 1\<rparr>]
   \<and> compute_layout \<lparr>frame_width = 5000, frame_height = 5000, frame_count = 3, fps = 24\<rparr> False
     \<noteq> Inr None
   \<and> generate_sparse_layouts \<lparr>frame_width = 5000, frame_height = 5000, frame_count = 4, fps = 24\<rparr>
     = Inr []
   \<and> compute_layout \<lparr>frame_width = 5000, frame_height = 5000, frame_count = 4, fps = 24\<rparr> True
     = Inr None
   \<and> (11000::int) < 11001 \<and> (100::int) \<noteq> 0
   \<and> generate_layouts \<lparr>frame_width = 11001, frame_height = 100, frame_count = 10, fps = 24\<rparr>
     = Inr []
   \<and> compute_layout \<lparr>frame_width = 11001, frame_height = 100, frame_count = 10, fps = 24\<rparr> False
     = Inr None
   \<and> compute_layout \<lparr>frame_width = 11001, frame_height = 100, frame_count = 10, fps = 24\<rparr> True
     = Inr None
   \<and> generate_layouts \<lparr>frame_width = 100, frame_height = 11001, frame_count = 10, fps = 24\<rparr>
     = Inr []
   \<and> compute_layout \<lparr>frame_width = 100, frame_height = 11001, frame_count = 10, fps = 24\<rparr> False
     = Inr None
   \<and> compute_layout \<lparr>frame_width = 100, frame_height = 11001, frame_count = 10, fps = 24\<rparr> True
     = Inr None"
  using
    compute_layout_None
      [of "\<lparr>frame_width = 5000, frame_height = 5000, frame_count = 3, fps = 24\<rparr>"
          "[\<lparr>columns = 1, rows = 1\<rparr>, \<lparr>columns = 1, rows = 2\<rparr>, \<lparr>columns = 2, rows = 1\<rparr>]"
          "[\<lparr>columns = 2, rows = 2\<rparr>]"]
    compute_layout_None
      [of "\<lparr>frame_width = 5000, frame_height = 5000, frame_count = 4, fps = 24\<rparr>"
          "[\<lparr>columns = 1, rows = 1\<rparr>, \<lparr>columns = 1, rows = 2\<rparr>,
            \<lparr>columns = 2, rows = 1\<rparr>, \<lparr>columns = 2, rows = 2\<rparr>]" "[]"]
    compute_layout_None
      [of "\<lparr>frame_width = 11001, frame_height = 100, frame_count = 10, fps = 24\<rparr>" "[]" "[]"]
    compute_layout_None
      [of "\<lparr>frame_width = 100, frame_height = 11001, frame_count = 10, fps = 24\<rparr>" "[]" "[]"]
  by (simp add: exhaustive_defs grid_def upto_from_1)

text \<open>
  C10.  A layout returned by either mode of the exhaustive search is a layout of the
  generated grid: its columns lie between 1 and \<open>floor (11000 / frame_width)\<close>, its rows
  between 1 and \<open>floor (11000 / frame_height)\<close>, and the packed image is at most 11000
  pixels wide and high.
\<close>

theorem compute_layout_within_grid:
  assumes "compute_layout a sparse = Inr (Some l)"
  shows "(\<exists>g. generate_layouts a = Inr g \<and> l \<in> set g)
       \<and> 1 \<le> columns l \<and> columns l \<le> 11000 div frame_width a
       \<and> 1 \<le> rows l \<and> rows l \<le> 11000 div frame_height a
       \<and> columns l * frame_width a \<le> 11000 \<and> rows l * frame_height a \<le> 11000"
proof -
  from assms obtain g where g: "generate_layouts a = Inr g" "l \<in> set g"
    by (rule compute_layout_in_grid)
  note m = generate_layouts_members [OF g]
  then have "frame_width a * columns l \<le> 11000" "frame_height a * rows l \<le> 11000"
    by (simp_all add: mult_le_div)
  with g m show ?thesis by (auto simp: mult.commute)
qed

theorem compute_layout_within_grid_witness:
  "compute_layout \<lparr>frame_width = 5000, frame_height = 5000, frame_count = 3, fps = 24\<rparr> False
     = Inr (Some \<lparr>columns = 1, rows = 2\<rparr>)
   \<and> generate_layouts \<lparr>frame_width = 5000, frame_height = 5000, frame_count = 3, fps = 24\<rparr>
     = Inr [\<lparr>columns = 1, rows = 1\<rparr>, \<lparr>columns = 1, rows = 2\<rparr>,
            \<lparr>columns = 2, rows = 1\<rparr>, \<lparr>columns = 2, rows = 2\<rparr>]
   \<and> (1::int) \<le> 11000 div 5000 \<and> (2::int) \<le> 11000 div 5000
   \<and> (1::int) * 5000 \<le> 11000 \<and> (2::int) * 5000 \<le> 11000"
  using compute_layout_within_grid
    [of "\<lparr>frame_width = 5000, frame_height = 5000, frame_count = 3, fps = 24\<rparr>" False
        "\<lparr>columns = 1, rows = 2\<rparr>", OF small_dense]
  by (simp add: small_dense small_grid)


section \<open>Simulated annealing: auxiliary facts\<close>

subsection \<open>What a run that returns has preserved\<close>

lemma mutate_state_cases:
  "mutate_state s a d = s \<or> state_valid (mutate_state s a d) a"
  by (simp add: mutate_state_def Let_def)

lemma annealing_step_cases:
  fixes p :: "('s, 'f) annealing_params" and cs :: 's and d :: "'f draw"
  assumes "annealing_step ar p d t (cs, ce, bs, be) = Inr v'"
  defines "nxt \<equiv> mutate_state_fn p cs d"
  defines "ne \<equiv> compute_energy_fn p nxt"
  shows "v' = (nxt, ne, nxt, ne) \<and> ne < be
       \<or> v' = (nxt, ne, bs, be) \<and> \<not> ne < be
       \<or> v' = (cs, ce, bs, be)"
  using assms(1) unfolding annealing_step_def nxt_def ne_def
  by (auto simp: Let_def split: sum.splits bool.splits if_splits)

lemma annealing_loop_partial:
  fixes p :: "('s, 'f) annealing_params"
  assumes step: "\<And>d t v v'. I v \<Longrightarrow> annealing_step ar p d t v = Inr v' \<Longrightarrow> I v'"
    and run: "annealing_loop ar p draws i v t = Some (Inr s)"
    and init: "I v"
  shows "\<exists>v'. I v' \<and> s = fst (snd (snd v'))"
proof -
  define P where "P \<equiv> \<lambda>(ar' :: 'f arithmetic) (p' :: ('s, 'f) annealing_params)
      (draws' :: nat \<Rightarrow> 'f draw) (i :: nat) (v :: 's annealing_vars) (t :: 'f number)
      (y :: py_error + 's).
      ar' = ar \<longrightarrow> p' = p \<longrightarrow> I v \<longrightarrow> (\<forall>s. y = Inr s \<longrightarrow> (\<exists>v'. I v' \<and> s = fst (snd (snd v'))))"
  have "P ar p draws i v t (Inr s)"
  proof (rule annealing_loop.raw_induct [where P = P, OF _ run])
    fix f :: "'f arithmetic \<Rightarrow> ('s, 'f) annealing_params \<Rightarrow> (nat \<Rightarrow> 'f draw) \<Rightarrow> nat
        \<Rightarrow> 's annealing_vars \<Rightarrow> 'f number \<Rightarrow> (py_error + 's) option"
    fix ar' p' draws' i v t y
    assume IH: "\<And>a q ds j w u z. f a q ds j w u = Some z \<Longrightarrow> P a q ds j w u z"
      and eq: "(if number_gt ar' t (temp_min p')
         then case annealing_step ar' p' (draws' i) t v of
                Inl e \<Rightarrow> Some (Inl e)
              | Inr vars' \<Rightarrow>
                  (case cool_temp p' t of
                     Inl e \<Rightarrow> Some (Inl e)
                   | Inr temp' \<Rightarrow> f ar' p' draws' (Suc i) vars' temp')
         else Some (Inr (fst (snd (snd v))))) = Some y"
    show "P ar' p' draws' i v t y"
      unfolding P_def
    proof (intro impI allI)
      fix s
      assume a: "ar' = ar" "p' = p" "I v" "y = Inr s"
      show "\<exists>v'. I v' \<and> s = fst (snd (snd v'))"
      proof (cases "number_gt ar' t (temp_min p')")
        case False
        with eq a have "s = fst (snd (snd v))" by simp
        with a(3) show ?thesis by blast
      next
        case True
        with eq a obtain w u where w: "annealing_step ar p (draws' i) t v = Inr w"
          and u: "cool_temp p t = Inr u" and f: "f ar p draws' (Suc i) w u = Some (Inr s)"
          by (auto split: sum.splits)
        from step [OF a(3) w] have "I w" .
        with IH [OF f] show ?thesis by (simp add: P_def)
      qed
    qed
  qed
  with init show ?thesis by (simp add: P_def)
qed

lemma layout_params_simps:
  "initial_state (layout_params ar a init) = init"
  "mutate_state_fn (layout_params ar a init) s d = mutate_state s a d"
  "compute_energy_fn (layout_params ar a init) s = compute_energy s a"
  "temp_max (layout_params ar a init) = PyInt 15"
  "temp_min (layout_params ar a init) = PyFloat (literal_0_001 ar)"
  "cool_temp (layout_params ar a init) t =
     (case number_sub ar t (literal_0_001 ar) of Inl e \<Rightarrow> Inl e | Inr x \<Rightarrow> Inr (PyFloat x))"
  by (simp_all add: layout_params_def)

lemma valid_step:
  assumes "state_valid cs a \<and> state_valid bs a"
    and "annealing_step ar (layout_params ar a init) d t (cs, ce, bs, be) = Inr (cs', ce', bs', be')"
  shows "state_valid cs' a \<and> state_valid bs' a"
proof -
  have "state_valid (mutate_state cs a d) a"
    using mutate_state_cases [of cs a d] assms(1) by auto
  with annealing_step_cases [OF assms(2)] assms(1)
  show ?thesis by (auto simp: layout_params_simps)
qed

lemma returned_state_valid:
  assumes "state_valid init a"
    and "simulate_annealing ar (layout_params ar a init) draws = Some (Inr s)"
  shows "state_valid s a"
proof -
  let ?I = "\<lambda>v. case v of (cs, ce, bs, be) \<Rightarrow> state_valid cs a \<and> state_valid bs a"
  let ?p = "layout_params ar a init"
  have step: "?I v'" if "?I v" "annealing_step ar ?p d t v = Inr v'"
    for d t and v v' :: "layout annealing_vars"
  proof -
    obtain cs ce bs be where v: "v = (cs, ce, bs, be)" by (cases v rule: prod_cases4)
    obtain cs' ce' bs' be' where v': "v' = (cs', ce', bs', be')" by (cases v' rule: prod_cases4)
    from that valid_step [of cs a bs ar init d t ce be cs' ce' bs' be']
    show ?thesis unfolding v v' by simp
  qed
  have run: "annealing_loop ar ?p draws 0
      (init, compute_energy init a, init, compute_energy init a) (PyInt 15) = Some (Inr s)"
    using assms(2) by (simp add: simulate_annealing_def layout_params_simps Let_def)
  have init: "?I (init, compute_energy init a, init, compute_energy init a)"
    using assms(1) by simp
  from annealing_loop_partial [of ?I ar ?p, OF step run init]
  show ?thesis by auto
qed



subsection \<open>Rounding to binary64\<close>

lemma round_even_error: "\<bar>of_int (round_even q) - q\<bar> \<le> 1 / 2"
proof -
  have "of_int \<lfloor>q\<rfloor> \<le> q" "q < of_int \<lfloor>q\<rfloor> + 1" by linarith+
  then show ?thesis by (auto simp: round_even_def Let_def)
qed

lemma ulp_pos: "0 < ulp x"
  by (simp add: ulp_def)

lemma round_real_error: "\<bar>round_real x - x\<bar> \<le> ulp x / 2"
proof (cases "x = 0")
  case True
  then show ?thesis using ulp_pos [of x] by (simp add: round_real_def)
next
  case False
  let ?q = "x / ulp x"
  have "round_real x - x = (of_int (round_even ?q) - ?q) * ulp x"
    using False ulp_pos [of x] by (simp add: round_real_def algebra_simps)
  then have "\<bar>round_real x - x\<bar> = \<bar>of_int (round_even ?q) - ?q\<bar> * ulp x"
    using ulp_pos [of x] by (simp add: abs_mult)
  also have "\<dots> \<le> (1 / 2) * ulp x"
    using round_even_error [of ?q] ulp_pos [of x] by (intro mult_right_mono) auto
  finally show ?thesis by simp
qed

lemma exponent_le:
  assumes "\<bar>x\<bar> \<le> 16" and "x \<noteq> 0"
  shows "exponent x \<le> 4"
proof -
  have "log 2 \<bar>x\<bar> \<le> log 2 16"
    using assms by (intro log_mono) auto
  also have "log 2 16 = 4"
    using log_powr_cancel [of 2 4] by simp
  finally have "\<lfloor>log 2 \<bar>x\<bar>\<rfloor> \<le> 4" by linarith
  then show ?thesis by (simp add: exponent_def)
qed

lemma ulp_le:
  assumes "\<bar>x\<bar> \<le> 16" and "x \<noteq> 0"
  shows "ulp x \<le> 1 / 2 ^ 48"
proof -
  have "ulp x \<le> 2 powr (- 48)"
    unfolding ulp_def using exponent_le [OF assms] by (intro powr_mono) auto
  also have "2 powr (- 48) = (1::real) / 2 ^ 48"
    by (simp add: powr_minus_divide)
  finally show ?thesis .
qed

lemma round_real_small:
  assumes "\<bar>x\<bar> \<le> 16"
  shows "\<bar>round_real x - x\<bar> \<le> 1 / 2 ^ 49"
proof (cases "x = 0")
  case True
  then show ?thesis by (simp add: round_real_def)
next
  case False
  from round_real_error [of x] ulp_le [OF assms False] show ?thesis by simp
qed

lemma DBL_MAX_big: "17 \<le> DBL_MAX"
proof -
  have "(2::real) ^ 5 \<le> 2 ^ 971" by (intro power_increasing) auto
  moreover have "(1::real) \<le> 2 ^ 53 - 1" by simp
  ultimately have "1 * (2::real) ^ 5 \<le> (2 ^ 53 - 1) * 2 ^ 971"
    by (intro mult_mono) auto
  then show ?thesis by (simp add: DBL_MAX_def)
qed

lemma round_double_small:
  assumes "\<bar>x\<bar> \<le> 16"
  obtains y where "round_double x = Finite y" and "\<bar>y - x\<bar> \<le> 1 / 1000000"
proof -
  have "\<bar>round_real x - x\<bar> \<le> 1 / 2 ^ 49" by (rule round_real_small [OF assms])
  moreover have "(1::real) / 2 ^ 49 \<le> 1 / 1000000" by simp
  ultimately have e: "\<bar>round_real x - x\<bar> \<le> 1 / 1000000" by (rule order_trans)
  with assms have "\<bar>round_real x\<bar> \<le> 17" by linarith
  with DBL_MAX_big have "\<not> round_real x > DBL_MAX" "\<not> round_real x < - DBL_MAX" by linarith+
  then have "round_double x = Finite (round_real x)" by (simp add: round_double_def Let_def)
  with e that show ?thesis by blast
qed


lemma DBL_MAX_pos: "0 < DBL_MAX"
  using DBL_MAX_big by simp

lemma round_real_nonpos:
  assumes "x \<le> 0"
  shows "round_real x \<le> 0"
proof (cases "x = 0")
  case True
  then show ?thesis by (simp add: round_real_def)
next
  case False
  let ?q = "x / ulp x"
  have "?q \<le> 0" using assms ulp_pos [of x] by (simp add: divide_le_0_iff)
  with round_even_error [of ?q] have "real_of_int (round_even ?q) \<le> 1 / 2" by linarith
  then have "round_even ?q \<le> 0" by linarith
  then have "real_of_int (round_even ?q) * ulp x \<le> 0"
    using ulp_pos [of x] by (simp add: mult_le_0_iff)
  with False show ?thesis by (simp add: round_real_def)
qed

lemma round_double_nonpos:
  assumes "x \<le> 0"
  shows "(\<exists>y\<le>0. round_double x = Finite y) \<or> round_double x = NegInf"
  using round_real_nonpos [OF assms] DBL_MAX_pos
  by (auto simp: round_double_def Let_def)

lemma ulp_le_max:
  assumes "x \<noteq> 0"
  shows "ulp x \<le> max \<bar>x\<bar> 1"
proof (cases "- 1022 \<le> \<lfloor>log 2 \<bar>x\<bar>\<rfloor>")
  case True
  then have e: "exponent x = \<lfloor>log 2 \<bar>x\<bar>\<rfloor>" by (simp add: exponent_def)
  have "ulp x \<le> 2 powr (of_int \<lfloor>log 2 \<bar>x\<bar>\<rfloor>)"
    unfolding ulp_def e by (intro powr_mono) auto
  also have "\<dots> \<le> 2 powr (log 2 \<bar>x\<bar>)"
    by (intro powr_mono) auto
  also have "\<dots> = \<bar>x\<bar>" using assms by simp
  finally show ?thesis by simp
next
  case False
  then have e: "exponent x = - 1022" by (simp add: exponent_def)
  have "ulp x \<le> 2 powr 0"
    unfolding ulp_def e by (intro powr_mono) auto
  then show ?thesis by simp
qed

lemma round_real_bound: "\<bar>round_real x\<bar> \<le> 2 * max \<bar>x\<bar> 1"
proof (cases "x = 0")
  case True
  then show ?thesis by (simp add: round_real_def)
next
  case False
  from round_real_error [of x] ulp_le_max [OF False]
  have "\<bar>round_real x - x\<bar> \<le> max \<bar>x\<bar> 1 / 2" by linarith
  then show ?thesis by linarith
qed

lemma DBL_MAX_huge: "2 ^ 1003 \<le> DBL_MAX"
proof -
  have "(2::real) ^ 1003 \<le> 2 ^ 1023" by (intro power_increasing) auto
  also have "\<dots> = 2 ^ 52 * 2 ^ 971" by (simp flip: power_add)
  also have "\<dots> \<le> (2 ^ 53 - 1) * 2 ^ 971" by (intro mult_right_mono) auto
  finally show ?thesis by (simp only: DBL_MAX_def)
qed

lemma round_double_finite:
  assumes "\<bar>x\<bar> \<le> 2 ^ 1002"
  obtains y where "round_double x = Finite y"
proof -
  have "(1::real) \<le> 2 ^ 1002" by (rule one_le_power) simp
  with assms have "max \<bar>x\<bar> 1 \<le> 2 ^ 1002" by simp
  with round_real_bound [of x] have "\<bar>round_real x\<bar> \<le> 2 * 2 ^ 1002" by linarith
  also have "\<dots> = (2::real) ^ 1003" by simp
  finally have "\<bar>round_real x\<bar> \<le> DBL_MAX" using DBL_MAX_huge by (rule order_trans)
  then have "round_double x = Finite (round_real x)"
    by (simp add: round_double_def Let_def abs_le_iff)
  with that show ?thesis .
qed

subsection \<open>Runs that end\<close>

lemma annealing_loop_total:
  fixes p :: "('s, 'f) annealing_params" and level :: "'f number \<Rightarrow> real"
  assumes delta: "0 < delta"
    and inv: "\<And>i v t. K i v t \<Longrightarrow> number_gt ar t (temp_min p) \<Longrightarrow>
        0 < level t \<and>
        (case annealing_step ar p (draws i) t v of
           Inl e \<Rightarrow> E e
         | Inr v' \<Rightarrow> (\<exists>t'. cool_temp p t = Inr t' \<and> K (Suc i) v' t' \<and> level t' \<le> level t - delta))"
    and start: "K i v t"
  shows "\<exists>r. annealing_loop ar p draws i v t = Some r \<and>
      (case r of Inl e \<Rightarrow> E e | Inr s \<Rightarrow> \<exists>j v' t'. K j v' t' \<and> s = fst (snd (snd v')))"
proof -
  have "\<And>i v t. level t \<le> real n * delta \<Longrightarrow> K i v t \<Longrightarrow>
      \<exists>r. annealing_loop ar p draws i v t = Some r \<and>
        (case r of Inl e \<Rightarrow> E e | Inr s \<Rightarrow> \<exists>j v' t'. K j v' t' \<and> s = fst (snd (snd v')))" for n
  proof (induction n)
    case 0
    with inv [of i v t] have "\<not> number_gt ar t (temp_min p)" by auto
    then have "annealing_loop ar p draws i v t = Some (Inr (fst (snd (snd v))))"
      by (subst annealing_loop.simps) simp
    moreover have "\<exists>j v' t'. K j v' t' \<and> fst (snd (snd v)) = fst (snd (snd v'))"
      using 0(2) by blast
    ultimately show ?case by simp
  next
    case (Suc n)
    show ?case
    proof (cases "number_gt ar t (temp_min p)")
      case False
      then have "annealing_loop ar p draws i v t = Some (Inr (fst (snd (snd v))))"
        by (subst annealing_loop.simps) simp
      moreover have "\<exists>j v' t'. K j v' t' \<and> fst (snd (snd v)) = fst (snd (snd v'))"
        using Suc.prems(2) by blast
      ultimately show ?thesis by simp
    next
      case True
      note step = inv [OF Suc.prems(2) True]
      show ?thesis
      proof (cases "annealing_step ar p (draws i) t v")
        case (Inl e)
        with step have "E e" by simp
        moreover have "annealing_loop ar p draws i v t = Some (Inl e)"
          using True Inl by (subst annealing_loop.simps) simp
        ultimately show ?thesis by simp
      next
        case (Inr v')
        with step obtain t' where t': "cool_temp p t = Inr t'" "K (Suc i) v' t'"
          "level t' \<le> level t - delta" by auto
        then have "level t' \<le> real n * delta"
          using Suc.prems(1) by (simp add: algebra_simps)
        from Suc.IH [OF this t'(2)] True Inr t'(1) show ?thesis
          by (subst annealing_loop.simps) simp
      qed
    qed
  qed
  moreover obtain n where "level t / delta \<le> real n"
    using real_arch_simple by blast
  then have "level t \<le> real n * delta"
    using delta by (simp add: pos_divide_le_eq)
  ultimately show ?thesis using start by blast
qed

lemma literal_0_001:
  obtains c where "literal_0_001 (ieee libm) = Finite c"
    and "999 / 1000000 \<le> c" and "c \<le> 1"
proof -
  obtain c where c: "round_double (1 / 1000) = Finite c" "\<bar>c - 1 / 1000\<bar> \<le> 1 / 1000000"
    by (rule round_double_small [of "1 / 1000"]) auto
  have "literal_0_001 (ieee libm) = Finite c" by (simp add: ieee_def c)
  moreover from c(2) have "999 / 1000000 \<le> c" "c \<le> 1" by linarith+
  ultimately show ?thesis using that by blast
qed

lemma schedule_cool:
  assumes c: "literal_0_001 (ieee libm) = Finite c" "999 / 1000000 \<le> c" "c \<le> 1"
    and t: "schedule_temp t" "number_gt (ieee libm) t (PyFloat (Finite c))"
  shows "0 < temp_level t \<and>
    (\<exists>z. number_sub (ieee libm) t (literal_0_001 (ieee libm)) = Inr (Finite z)
       \<and> schedule_temp (PyFloat (Finite z))
       \<and> temp_level (PyFloat (Finite z)) \<le> temp_level t - 1 / 2000)"
proof (cases t)
  case (PyInt k)
  with t(1) have k: "k = 15" by (simp add: schedule_temp_def)
  obtain y where y: "round_double 15 = Finite y" "\<bar>y - 15\<bar> \<le> 1 / 1000000"
    by (rule round_double_small [of 15]) auto
  have "\<bar>y - c\<bar> \<le> 16" using y(2) c(2,3) by linarith
  then obtain z where z: "round_double (y - c) = Finite z" "\<bar>z - (y - c)\<bar> \<le> 1 / 1000000"
    by (rule round_double_small)
  have "number_sub (ieee libm) t (literal_0_001 (ieee libm)) = Inr (Finite z)"
    by (simp add: ieee_def ieee_number_sub_def int_to_double_def finite_or_raise_def
        PyInt k y(1) z(1) c(1) [unfolded ieee_def, simplified])
  moreover have "\<bar>z\<bar> \<le> 16" "z \<le> 16 - 1 / 2000"
    using z(2) y(2) c(2,3) by linarith+
  ultimately show ?thesis
    by (simp add: PyInt k schedule_temp_def temp_level_def)
next
  case (PyFloat d)
  with t(1) obtain x where x: "d = Finite x" "\<bar>x\<bar> \<le> 16"
    by (cases d) (simp_all add: schedule_temp_def)
  from t(2) have gt: "c < x"
    by (simp add: ieee_def ieee_number_gt_def number_value_def PyFloat x(1))
  then have "\<bar>x - c\<bar> \<le> 16" using x(2) c(2) by linarith
  then obtain z where z: "round_double (x - c) = Finite z" "\<bar>z - (x - c)\<bar> \<le> 1 / 1000000"
    by (rule round_double_small)
  have "number_sub (ieee libm) t (literal_0_001 (ieee libm)) = Inr (Finite z)"
    by (simp add: ieee_def ieee_number_sub_def PyFloat x(1) z(1)
        c(1) [unfolded ieee_def, simplified])
  moreover have "\<bar>z\<bar> \<le> 16" "z \<le> x - 1 / 2000" "0 < x"
    using z(2) x(2) gt c(2,3) by linarith+
  ultimately show ?thesis
    by (simp add: PyFloat x(1) schedule_temp_def temp_level_def)
qed

lemma round_double_0: "round_double 0 = Finite 0"
  using DBL_MAX_big by (simp add: round_double_def round_real_def)

lemma round_even_of_int: "round_even (of_int n) = n"
  by (simp add: round_even_def)

lemma round_double_1: "round_double 1 = Finite 1"
proof -
  have "exponent 1 = 0" by (simp add: exponent_def)
  then have u: "ulp 1 = 1 / 2 ^ 52" by (simp add: ulp_def powr_minus_divide)
  have "round_even (1 / ulp 1) = 2 ^ 52"
    using round_even_of_int [of "2 ^ 52"] by (simp add: u)
  then have "round_real 1 = 1" by (simp add: round_real_def u)
  with DBL_MAX_big show ?thesis by (simp add: round_double_def)
qed

lemma rounded_exp_0: "rounded_exp 0 = Finite 1"
  by (simp add: rounded_exp_def round_double_1)

lemma truediv_zero:
  assumes "schedule_temp t" and "number_gt (ieee libm) t (PyFloat (Finite c))" and "0 < c"
  shows "int_truediv (ieee libm) 0 t = Inr (Finite 0)"
proof (cases t)
  case (PyInt k)
  with assms(1) show ?thesis
    by (simp add: schedule_temp_def ieee_def ieee_int_truediv_def finite_or_raise_def
        round_double_0)
next
  case (PyFloat d)
  with assms(1) obtain x where x: "d = Finite x"
    by (cases d) (simp_all add: schedule_temp_def)
  from assms(2,3) have "x \<noteq> 0"
    by (simp add: ieee_def ieee_number_gt_def number_value_def PyFloat x)
  then show ?thesis
    by (simp add: ieee_def ieee_int_truediv_def int_to_double_def finite_or_raise_def
        round_double_0 double_div_def PyFloat x)
qed

lemma schedule_terminates:
  fixes p :: "('s, double) annealing_params"
  assumes "temp_max p = PyInt 15"
    and "temp_min p = PyFloat (literal_0_001 (ieee libm))"
    and "cool_temp p = (\<lambda>temp. case number_sub (ieee libm) temp (literal_0_001 (ieee libm)) of
                                  Inl e \<Rightarrow> Inl e | Inr x \<Rightarrow> Inr (PyFloat x))"
  shows "\<exists>r. simulate_annealing (ieee libm) p draws = Some r"
proof -
  obtain c where c: "literal_0_001 (ieee libm) = Finite c" "999 / 1000000 \<le> c" "c \<le> 1"
    by (rule literal_0_001)
  let ?K = "\<lambda>(i::nat) (v::'s annealing_vars) t. schedule_temp t"
  have inv: "0 < temp_level t \<and>
        (case annealing_step (ieee libm) p (draws i) t v of
           Inl e \<Rightarrow> True
         | Inr v' \<Rightarrow> (\<exists>t'. cool_temp p t = Inr t' \<and> ?K (Suc i) v' t'
              \<and> temp_level t' \<le> temp_level t - 1 / 2000))"
    if "?K i v t" "number_gt (ieee libm) t (temp_min p)" for i v t
  proof -
    from that have "number_gt (ieee libm) t (PyFloat (Finite c))"
      by (simp add: assms(2) c(1))
    from schedule_cool [OF c that(1) this] show ?thesis
      by (auto simp: assms(3) split: sum.splits)
  qed
  have "?K 0 (initial_state p, compute_energy_fn p (initial_state p),
      initial_state p, compute_energy_fn p (initial_state p)) (PyInt 15)"
    by (simp add: schedule_temp_def)
  from annealing_loop_total [where delta = "1 / 2000" and K = ?K and level = temp_level
      and E = "\<lambda>e. True" and ar = "ieee libm" and p = p and draws = draws and i = 0
      and t = "PyInt 15" and v = "(initial_state p, compute_energy_fn p (initial_state p),
        initial_state p, compute_energy_fn p (initial_state p))", OF _ inv this]
  show ?thesis by (auto simp: simulate_annealing_def Let_def assms(1))
qed

lemma stuck_state_returns:
  assumes libm: "libm 0 = Finite 1"
    and stuck: "mutate_state s a d = s"
    and u: "uniform d = Finite x" "x < 1"
    and t: "schedule_temp t"
  shows "annealing_loop (ieee libm) (layout_params (ieee libm) a init) (repeat_draw d) i
           (s, compute_energy s a, s, compute_energy s a) t = Some (Inr s)"
proof -
  obtain c where c: "literal_0_001 (ieee libm) = Finite c" "999 / 1000000 \<le> c" "c \<le> 1"
    by (rule literal_0_001)
  let ?p = "layout_params (ieee libm) a init"
  let ?v = "(s, compute_energy s a, s, compute_energy s a)"
  let ?K = "\<lambda>(i::nat) (v::layout annealing_vars) t. v = ?v \<and> schedule_temp t"
  have inv: "0 < temp_level t \<and>
        (case annealing_step (ieee libm) ?p (repeat_draw d i) t v of
           Inl e \<Rightarrow> False
         | Inr v' \<Rightarrow> (\<exists>t'. cool_temp ?p t = Inr t' \<and> ?K (Suc i) v' t'
              \<and> temp_level t' \<le> temp_level t - 1 / 2000))"
    if "?K i v t" "number_gt (ieee libm) t (temp_min ?p)" for i v t
  proof -
    from that have gt: "number_gt (ieee libm) t (PyFloat (Finite c))"
      by (simp add: layout_params_simps c(1))
    from c(2) have "0 < c" by simp
    from truediv_zero [OF _ gt this] that
    have "int_truediv (ieee libm) 0 t = Inr (Finite 0)" by simp
    moreover have "math_exp (ieee libm) (Finite 0) = Inr (Finite 1)"
      by (simp add: ieee_def ieee_math_exp_def libm)
    moreover have "float_gt (ieee libm) (Finite 1) (uniform d)"
      using u by (simp add: ieee_def)
    ultimately have "accepts (ieee libm) (compute_energy s a) (compute_energy s a) t (uniform d)
        = Inr True"
      by (simp add: accepts_def)
    then have "annealing_step (ieee libm) ?p (repeat_draw d i) t v = Inr ?v"
      using that(1)
      by (simp add: annealing_step_def layout_params_simps repeat_draw_def stuck Let_def)
    with schedule_cool [OF c _ gt] that(1) show ?thesis
      by (auto simp: layout_params_simps split: sum.splits)
  qed
  from annealing_loop_total [where delta = "1 / 2000" and K = ?K and level = temp_level
      and E = "\<lambda>e. False" and ar = "ieee libm" and p = ?p and draws = "repeat_draw d"
      and i = i and v = ?v and t = t, OF _ inv] t
  obtain r where r: "annealing_loop (ieee libm) ?p (repeat_draw d) i ?v t = Some r"
    "case r of Inl e \<Rightarrow> False | Inr s' \<Rightarrow> \<exists>j v' t'. ?K j v' t' \<and> s' = fst (snd (snd v'))"
    by auto
  then show ?thesis by (cases r) auto
qed

lemma one_move_run:
  assumes libm: "libm 0 = Finite 1"
    and u: "uniform d = Finite x" "x < 1"
    and move: "mutate_state init a d = n" "compute_energy n a < compute_energy init a"
    and stuck: "mutate_state n a d = n"
  shows "simulate_annealing (ieee libm) (layout_params (ieee libm) a init) (repeat_draw d)
     = Some (Inr n)"
proof -
  obtain c where c: "literal_0_001 (ieee libm) = Finite c" "999 / 1000000 \<le> c" "c \<le> 1"
    by (rule literal_0_001)
  let ?p = "layout_params (ieee libm) a init"
  have gt: "number_gt (ieee libm) (PyInt 15) (PyFloat (Finite c))"
    using c(3) by (simp add: ieee_def ieee_number_gt_def number_value_def)
  have s15: "schedule_temp (PyInt 15)" by (simp add: schedule_temp_def)
  from schedule_cool [OF c s15 gt] obtain z
    where z: "number_sub (ieee libm) (PyInt 15) (literal_0_001 (ieee libm)) = Inr (Finite z)"
      "schedule_temp (PyFloat (Finite z))" by blast
  have step: "annealing_step (ieee libm) ?p (repeat_draw d 0) (PyInt 15)
      (init, compute_energy init a, init, compute_energy init a)
      = Inr (n, compute_energy n a, n, compute_energy n a)"
    using move
    by (simp add: annealing_step_def accepts_def layout_params_simps repeat_draw_def Let_def)
  have "annealing_loop (ieee libm) ?p (repeat_draw d) 0
      (init, compute_energy init a, init, compute_energy init a) (PyInt 15)
      = annealing_loop (ieee libm) ?p (repeat_draw d) (Suc 0)
          (n, compute_energy n a, n, compute_energy n a) (PyFloat (Finite z))"
    using gt by (subst annealing_loop.simps) (simp add: layout_params_simps c(1) step z(1) [unfolded c(1)])
  also have "\<dots> = Some (Inr n)"
    by (rule stuck_state_returns [where libm = libm and s = n and a = a and d = d and x = x,
          OF libm stuck u z(2)])
  finally show ?thesis
    by (simp add: simulate_annealing_def Let_def layout_params_simps)
qed

lemma truediv_nonpos:
  assumes t: "schedule_temp t" "number_gt (ieee libm) t (PyFloat (Finite c))" "0 < c"
    and n: "n \<le> 0"
  shows "int_truediv (ieee libm) n t = Inl OverflowError
       \<or> (\<exists>y\<le>0. int_truediv (ieee libm) n t = Inr (Finite y))
       \<or> int_truediv (ieee libm) n t = Inr NegInf"
proof (cases t)
  case (PyInt k)
  with t(1) have k: "k = 15" by (simp add: schedule_temp_def)
  have "real_of_int n / 15 \<le> 0" using n by simp
  from round_double_nonpos [OF this] show ?thesis
    by (auto simp: ieee_def ieee_int_truediv_def finite_or_raise_def PyInt k)
next
  case (PyFloat d)
  with t(1) obtain x where x: "d = Finite x"
    by (cases d) (simp_all add: schedule_temp_def)
  from t(2,3) have pos: "0 < x"
    by (simp add: ieee_def ieee_number_gt_def number_value_def PyFloat x)
  have "real_of_int n \<le> 0" using n by simp
  from round_double_nonpos [OF this] show ?thesis
  proof
    assume "\<exists>y\<le>0. round_double (real_of_int n) = Finite y"
    then obtain y where y: "y \<le> 0" "round_double (real_of_int n) = Finite y" by blast
    then have "y / x \<le> 0" using pos by (simp add: divide_le_0_iff)
    from round_double_nonpos [OF this] y(2) pos show ?thesis
      by (auto simp: ieee_def ieee_int_truediv_def int_to_double_def finite_or_raise_def
          double_div_def PyFloat x)
  next
    assume "round_double (real_of_int n) = NegInf"
    then show ?thesis
      by (simp add: ieee_def ieee_int_truediv_def int_to_double_def finite_or_raise_def
          PyFloat x)
  qed
qed

lemma truediv_bounded:
  assumes t: "schedule_temp t" "number_gt (ieee libm) t (PyFloat (Finite c))" "0 < c"
    and n: "\<bar>real_of_int n\<bar> \<le> 2 ^ 1002"
  shows "int_truediv (ieee libm) n t \<noteq> Inl OverflowError"
proof (cases t)
  case (PyInt k)
  with t(1) have k: "k = 15" by (simp add: schedule_temp_def)
  have "\<bar>real_of_int n / 15\<bar> \<le> 2 ^ 1002" using n by simp
  then obtain y where "round_double (real_of_int n / 15) = Finite y"
    by (rule round_double_finite)
  then show ?thesis
    by (simp add: ieee_def ieee_int_truediv_def finite_or_raise_def PyInt k)
next
  case (PyFloat d)
  with t(1) obtain x where x: "d = Finite x"
    by (cases d) (simp_all add: schedule_temp_def)
  from t(2,3) have pos: "0 < x"
    by (simp add: ieee_def ieee_number_gt_def number_value_def PyFloat x)
  obtain y where "round_double (real_of_int n) = Finite y"
    using n by (rule round_double_finite)
  then show ?thesis using pos
    by (simp add: ieee_def ieee_int_truediv_def int_to_double_def finite_or_raise_def
        double_div_def PyFloat x)
qed

lemma math_exp_nonpos:
  assumes "exp_finite libm" and "(\<exists>y\<le>0. q = Finite y) \<or> q = NegInf"
  shows "\<exists>z. math_exp (ieee libm) q = Inr z"
  using assms by (auto simp: ieee_def ieee_math_exp_def exp_finite_def)


lemma accepts_bounded:
  assumes "exp_finite libm"
    and t: "schedule_temp t" "number_gt (ieee libm) t (PyFloat (Finite c))" "0 < c"
    and n: "\<bar>real_of_int (ce - ne)\<bar> \<le> 2 ^ 1002"
  shows "\<exists>b. accepts (ieee libm) ce ne t u = Inr b"
proof (cases "ne < ce")
  case True
  then have "accepts (ieee libm) ce ne t u = Inr True" by (simp add: accepts_def)
  then show ?thesis by blast
next
  case False
  then have "ce - ne \<le> 0" by simp
  from truediv_nonpos [OF t this] truediv_bounded [OF t n]
  have "(\<exists>y\<le>0. int_truediv (ieee libm) (ce - ne) t = Inr (Finite y))
      \<or> int_truediv (ieee libm) (ce - ne) t = Inr NegInf" by blast
  then obtain q where q: "int_truediv (ieee libm) (ce - ne) t = Inr q"
    "(\<exists>y\<le>0. q = Finite y) \<or> q = NegInf" by blast
  from math_exp_nonpos [OF assms(1) q(2)]
  obtain z where "math_exp (ieee libm) q = Inr z" by blast
  with False q(1) show ?thesis by (simp add: accepts_def)
qed

lemma annealing_step_result:
  "(case accepts ar ce (compute_energy_fn p (mutate_state_fn p cs d)) t (uniform d) of
      Inl e \<Rightarrow> annealing_step ar p d t (cs, ce, bs, be) = Inl e
    | Inr b \<Rightarrow> \<exists>v'. annealing_step ar p d t (cs, ce, bs, be) = Inr v')"
  by (simp add: annealing_step_def Let_def split: sum.splits bool.splits)

lemma mutate_state_drift:
  "\<bar>columns (mutate_state s a d)\<bar> \<le> \<bar>columns s\<bar> + 1
   \<and> \<bar>rows (mutate_state s a d)\<bar> \<le> \<bar>rows s\<bar> + 1"
  by (auto simp: mutate_state_def mutations_def Let_def)

lemma energy_step:
  "\<bar>compute_energy s a - compute_energy (mutate_state s a d) a\<bar> \<le> max \<bar>columns s\<bar> \<bar>rows s\<bar>"
  by (auto simp: mutate_state_def mutations_def compute_energy_def Let_def algebra_simps
      le_max_iff_disj)

lemma rounded_exp_finite: "exp_finite rounded_exp"
  unfolding exp_finite_def
proof (intro allI impI)
  fix r :: real
  assume "r \<le> 0"
  then have "exp r \<le> 1" by simp
  with exp_gt_zero [of r] have "\<bar>exp r\<bar> \<le> 16" by linarith
  then obtain y where "round_double (exp r) = Finite y" by (rule round_double_small)
  then show "\<exists>y. rounded_exp r = Finite y" by (simp add: rounded_exp_def)
qed


lemma bounded_run_returns:
  assumes libm: "exp_finite libm"
    and init: "\<bar>columns init\<bar> \<le> 2 ^ 1000" "\<bar>rows init\<bar> \<le> 2 ^ 1000"
  shows "\<exists>s. simulate_annealing (ieee libm) (layout_params (ieee libm) a init) draws
           = Some (Inr s)"
proof -
  obtain c where c: "literal_0_001 (ieee libm) = Finite c" "999 / 1000000 \<le> c" "c \<le> 1"
    by (rule literal_0_001)
  then have cpos: "0 < c" by simp
  let ?p = "layout_params (ieee libm) a init"
  define B :: int where "B = 2 ^ 1000"
  have B: "32000 \<le> B" "real_of_int (B + 32000) \<le> 2 ^ 1002"
  proof -
    have "(2::int) ^ 15 \<le> 2 ^ 1000" by (intro power_increasing) auto
    then show b: "32000 \<le> B" by (simp add: B_def)
    have "B + 32000 \<le> 2 * B" using b by simp
    also have "\<dots> = 2 ^ 1001" by (simp add: B_def)
    also have "\<dots> \<le> (2::int) ^ 1002" by (intro power_increasing) auto
    finally have "real_of_int (B + 32000) \<le> real_of_int (2 ^ 1002)"
      by (simp only: of_int_le_iff)
    then show "real_of_int (B + 32000) \<le> 2 ^ 1002" by simp
  qed
  define K where "K \<equiv> \<lambda>(i::nat) (v::layout annealing_vars) (t::double number).
      schedule_temp t \<and> temp_level t \<le> 16 - real i / 2000
      \<and> (case v of (cs, ce, bs, be) \<Rightarrow>
           ce = compute_energy cs a \<and> \<bar>columns cs\<bar> \<le> B + int i \<and> \<bar>rows cs\<bar> \<le> B + int i)"
  have inv: "0 < temp_level t \<and>
        (case annealing_step (ieee libm) ?p (draws i) t v of
           Inl e \<Rightarrow> False
         | Inr v' \<Rightarrow> (\<exists>t'. cool_temp ?p t = Inr t' \<and> K (Suc i) v' t'
              \<and> temp_level t' \<le> temp_level t - 1 / 2000))"
    if K: "K i v t" and gt': "number_gt (ieee libm) t (temp_min ?p)" for i v t
  proof -
    from gt' have gt: "number_gt (ieee libm) t (PyFloat (Finite c))"
      by (simp add: layout_params_simps c(1))
    obtain cs ce bs be where v: "v = (cs, ce, bs, be)" by (cases v rule: prod_cases4)
    from K have st: "schedule_temp t" and lvl: "temp_level t \<le> 16 - real i / 2000"
      and ce: "ce = compute_energy cs a"
      and bnd: "\<bar>columns cs\<bar> \<le> B + int i" "\<bar>rows cs\<bar> \<le> B + int i"
      by (simp_all add: v K_def)
    from schedule_cool [OF c st gt] obtain z where pos: "0 < temp_level t"
      and z: "number_sub (ieee libm) t (literal_0_001 (ieee libm)) = Inr (Finite z)"
        "schedule_temp (PyFloat (Finite z))"
        "temp_level (PyFloat (Finite z)) \<le> temp_level t - 1 / 2000"
      by blast
    from pos lvl have "real i < 32000" by simp
    then have i: "int i < 32000" by simp
    let ?n = "mutate_state cs a (draws i)"
    let ?ne = "compute_energy ?n a"
    have "\<bar>ce - ?ne\<bar> \<le> max \<bar>columns cs\<bar> \<bar>rows cs\<bar>"
      unfolding ce by (rule energy_step)
    also have "\<dots> \<le> B + 32000" using bnd i by simp
    finally have "\<bar>real_of_int (ce - ?ne)\<bar> \<le> real_of_int (B + 32000)"
      by (simp only: of_int_abs [symmetric] of_int_le_iff)
    from this B(2) have small: "\<bar>real_of_int (ce - ?ne)\<bar> \<le> 2 ^ 1002" by (rule order_trans)
    from accepts_bounded [OF libm st gt cpos small]
    obtain b where "accepts (ieee libm) ce ?ne t (uniform (draws i)) = Inr b" by blast
    with annealing_step_result [where ar = "ieee libm" and ce = ce and p = ?p and cs = cs
        and d = "draws i" and t = t and bs = bs and be = be]
    obtain v' where v': "annealing_step (ieee libm) ?p (draws i) t v = Inr v'"
      by (auto simp: layout_params_simps v)
    obtain cs' ce' bs' be' where v'4: "v' = (cs', ce', bs', be')"
      by (cases v' rule: prod_cases4)
    from annealing_step_cases [OF v' [unfolded v v'4]]
    have "cs' = ?n \<and> ce' = ?ne \<or> cs' = cs \<and> ce' = ce"
      by (auto simp: layout_params_simps)
    with mutate_state_drift [of cs a "draws i"] ce bnd
    have "ce' = compute_energy cs' a \<and> \<bar>columns cs'\<bar> \<le> B + int (Suc i)
        \<and> \<bar>rows cs'\<bar> \<le> B + int (Suc i)"
      by auto
    moreover have "temp_level (PyFloat (Finite z)) \<le> 16 - real (Suc i) / 2000"
      using z(3) lvl by (simp add: field_simps)
    ultimately show ?thesis
      using pos z by (simp add: v' v'4 layout_params_simps K_def)
  qed
  have "K 0 (init, compute_energy init a, init, compute_energy init a) (PyInt 15)"
    using init by (simp add: schedule_temp_def temp_level_def B_def K_def)
  from annealing_loop_total [where delta = "1 / 2000" and K = K and level = temp_level
      and E = "\<lambda>e. False" and ar = "ieee libm" and p = ?p and draws = draws
      and i = 0 and t = "PyInt 15"
      and v = "(init, compute_energy init a, init, compute_energy init a)", OF _ inv this]
  obtain r where r: "annealing_loop (ieee libm) ?p draws 0
        (init, compute_energy init a, init, compute_energy init a) (PyInt 15) = Some r"
      "case r of Inl e \<Rightarrow> False
       | Inr s \<Rightarrow> \<exists>j v' t'. K j v' t' \<and> s = fst (snd (snd v'))"
    by auto
  then show ?thesis
    by (cases r) (auto simp: simulate_annealing_def Let_def layout_params_simps)
qed

subsection \<open>The values the interpreter computes\<close>

text \<open>
  The literal \<open>0.001\<close> is the double \<open>1152921504606847 / 2 ^ 60\<close>, and the first cooling,
  \<open>15 - 0.001\<close>, gives the double \<open>8443686351366259 / 2 ^ 49\<close> (printed \<open>14.999\<close>).
\<close>

lemma exponent_eq:
  assumes "2 powr (of_int e) \<le> \<bar>x\<bar>" and "\<bar>x\<bar> < 2 powr (of_int e + 1)" and "- 1022 \<le> e"
  shows "exponent x = e"
proof -
  have "0 < (2::real) powr (of_int e)" by simp
  with assms(1) have pos: "0 < \<bar>x\<bar>" by linarith
  have "of_int e \<le> log 2 \<bar>x\<bar>"
    using assms(1) pos by (simp add: le_log_iff)
  moreover have "log 2 \<bar>x\<bar> < of_int e + 1"
    using assms(2) pos by (simp add: log_less_iff)
  ultimately have "\<lfloor>log 2 \<bar>x\<bar>\<rfloor> = e" by linarith
  with assms(3) show ?thesis by (simp add: exponent_def)
qed

lemma literal_value: "round_double (1 / 1000) = Finite (1152921504606847 / 2 ^ 60)"
proof -
  have "exponent (1 / 1000) = - 10"
    by (rule exponent_eq) (simp_all add: powr_minus_divide)
  then have u: "ulp (1 / 1000) = 1 / 2 ^ 62" by (simp add: ulp_def powr_minus_divide)
  have "round_even (1 / 1000 / ulp (1 / 1000)) = 4611686018427388"
    by (simp add: u round_even_def Let_def)
  then have "round_real (1 / 1000) = 1152921504606847 / 2 ^ 60"
    by (simp add: round_real_def u)
  moreover have "(1152921504606847::real) / 2 ^ 60 \<le> 17" by simp
  ultimately show ?thesis
    using DBL_MAX_big by (simp add: round_double_def Let_def)
qed


lemma round_double_15: "round_double 15 = Finite 15"
proof -
  have "exponent 15 = 3"
    by (rule exponent_eq) simp_all
  then have u: "ulp 15 = 1 / 2 ^ 49" by (simp add: ulp_def powr_minus_divide)
  have "round_even (15 / ulp 15) = 15 * 2 ^ 49"
    using round_even_of_int [of "15 * 2 ^ 49"] by (simp add: u)
  then have "round_real 15 = 15" by (simp add: round_real_def u)
  then show ?thesis using DBL_MAX_big by (simp add: round_double_def Let_def)
qed

lemma first_cooling:
  "number_sub (ieee libm) (PyInt 15) (literal_0_001 (ieee libm))
     = Inr (Finite (8443686351366259 / 2 ^ 49))"
proof -
  let ?x = "17292669647598097793 / 1152921504606846976 :: real"
  have x: "15 - 1152921504606847 / (2::real) ^ 60 = ?x" by simp
  have "exponent ?x = 3"
    by (rule exponent_eq) simp_all
  then have u: "ulp ?x = 1 / 2 ^ 49" by (simp add: ulp_def powr_minus_divide)
  have "round_even (?x / ulp ?x) = 8443686351366259"
    by (simp add: u round_even_def Let_def)
  then have "round_real ?x = 8443686351366259 / 2 ^ 49"
    by (simp add: round_real_def u)
  moreover have "(8443686351366259::real) / 2 ^ 49 \<le> 17" by simp
  ultimately have "round_double ?x = Finite (8443686351366259 / 2 ^ 49)"
    using DBL_MAX_big by (simp add: round_double_def Let_def)
  then show ?thesis
    using x
    by (simp add: ieee_def ieee_number_sub_def int_to_double_def finite_or_raise_def
        round_double_15 literal_value)
qed



section \<open>Simulated annealing: properties\<close>

text \<open>
  C4.  The claim states what the validity predicate is for: a layout is admissible only
  with at least one column and one row.  The code tests the two counts against zero only
  and so misses negative ones.  For one frame of 3 by 2 pixels \<open>make_initial_state\<close> yields
  0 columns and 1 row; the mutation that subtracts 1 from the columns proposes \<open>-1\<close>
  columns and 1 row, which \<open>state_valid\<close> accepts, so \<open>mutate_state\<close> returns it.
\<close>

theorem state_valid_accepts_negative:
  "state_valid \<lparr>columns = - 1, rows = 1\<rparr>
     \<lparr>frame_width = 3, frame_height = 2, frame_count = 1, fps = 24\<rparr>
   \<and> mutate_state \<lparr>columns = 0, rows = 1\<rparr>
       \<lparr>frame_width = 3, frame_height = 2, frame_count = 1, fps = 24\<rparr>
       \<lparr>choice_first = False, randint = 1, uniform = Finite 0\<rparr>
     = \<lparr>columns = - 1, rows = 1\<rparr>"
  by (simp add: mutate_state_def mutations_def state_valid_def Let_def)

text \<open>
  C5.  Started from a state that satisfies \<open>state_valid\<close>, the optimizer configured as in
  \<open>compute_layout\<close> returns only states that satisfy \<open>state_valid\<close>, whatever the draws
  and whatever the arithmetic on floats.  With binary64 arithmetic the run ends, whatever
  the C library's exponential; and when that exponential is finite on arguments that are
  not positive and the initial counts are at most \<open>2 ^ 1000\<close> in absolute value, it ends by
  returning such a state, raising nothing.
\<close>

theorem annealing_validity:
  assumes "state_valid init a"
  shows "(\<forall>s. simulate_annealing ar (layout_params ar a init) draws = Some (Inr s)
            \<longrightarrow> state_valid s a)
       \<and> (\<exists>r. simulate_annealing (ieee libm) (layout_params (ieee libm) a init) draws'
            = Some r)
       \<and> (exp_finite libm \<and> \<bar>columns init\<bar> \<le> 2 ^ 1000 \<and> \<bar>rows init\<bar> \<le> 2 ^ 1000 \<longrightarrow>
            (\<exists>s. simulate_annealing (ieee libm) (layout_params (ieee libm) a init) draws'
               = Some (Inr s) \<and> state_valid s a))"
proof (intro conjI allI impI)
  fix s
  assume "simulate_annealing ar (layout_params ar a init) draws = Some (Inr s)"
  with assms show "state_valid s a" by (rule returned_state_valid)
next
  show "\<exists>r. simulate_annealing (ieee libm) (layout_params (ieee libm) a init) draws' = Some r"
    by (rule schedule_terminates) (simp_all add: layout_params_def)
next
  assume "exp_finite libm \<and> \<bar>columns init\<bar> \<le> 2 ^ 1000 \<and> \<bar>rows init\<bar> \<le> 2 ^ 1000"
  then obtain s
    where s: "simulate_annealing (ieee libm) (layout_params (ieee libm) a init) draws'
      = Some (Inr s)"
    using bounded_run_returns [of libm init a draws'] by blast
  with assms have "state_valid s a" by (rule returned_state_valid)
  with s show "\<exists>s. simulate_annealing (ieee libm) (layout_params (ieee libm) a init) draws'
      = Some (Inr s) \<and> state_valid s a" by blast
qed

theorem annealing_validity_witness:
  "state_valid \<lparr>columns = 2, rows = 3\<rparr>
     \<lparr>frame_width = 100, frame_height = 100, frame_count = 10, fps = 24\<rparr>
   \<and> exp_finite rounded_exp \<and> \<bar>2::int\<bar> \<le> 2 ^ 1000 \<and> \<bar>3::int\<bar> \<le> 2 ^ 1000
   \<and> simulate_annealing (ieee rounded_exp)
       (layout_params (ieee rounded_exp)
          \<lparr>frame_width = 100, frame_height = 100, frame_count = 10, fps = 24\<rparr>
          \<lparr>columns = 2, rows = 3\<rparr>)
       (repeat_draw \<lparr>choice_first = True, randint = 1, uniform = Finite 0\<rparr>)
     = Some (Inr \<lparr>columns = 3, rows = 3\<rparr>)
   \<and> state_valid \<lparr>columns = 3, rows = 3\<rparr>
       \<lparr>frame_width = 100, frame_height = 100, frame_count = 10, fps = 24\<rparr>"
proof -
  let ?a = "\<lparr>frame_width = 100, frame_height = 100, frame_count = 10, fps = 24\<rparr>"
  let ?d = "\<lparr>choice_first = True, randint = 1, uniform = Finite 0\<rparr>"
  have valid: "state_valid \<lparr>columns = 2, rows = 3\<rparr> ?a"
    by (simp add: state_valid_def)
  have run: "simulate_annealing (ieee rounded_exp)
      (layout_params (ieee rounded_exp) ?a \<lparr>columns = 2, rows = 3\<rparr>) (repeat_draw ?d)
      = Some (Inr \<lparr>columns = 3, rows = 3\<rparr>)"
    by (rule one_move_run [where x = 0])
      (simp_all add: rounded_exp_0 mutate_state_def mutations_def state_valid_def
        compute_energy_def Let_def)
  have small: "\<bar>2::int\<bar> \<le> 2 ^ 1000" "\<bar>3::int\<bar> \<le> 2 ^ 1000" by simp_all
  from annealing_validity [OF valid, of "ieee rounded_exp" "repeat_draw ?d" rounded_exp
      "repeat_draw ?d"] run
  have "state_valid \<lparr>columns = 3, rows = 3\<rparr> ?a" by blast
  with valid run small rounded_exp_finite show ?thesis by blast
qed




end
